theory Spec2Isabelle
  imports Main "HOL-Library.Sublist"
begin

unbundle bit_operations_syntax

chapter \<open>The Go version wrapper: download, verify, unpack, delegate\<close>

text \<open>
  A shallow embedding of \<open>internal/version/version.go\<close>, the package behind every
  \<open>go1.x\<close> command of the repository, and the properties of its installer and of the
  environment it builds for the \<open>go\<close> tool it runs.
\<close>

section \<open>Strings and paths\<close>

text \<open>
  Go strings are byte sequences; they are modelled as \<open>string\<close> (a list of 8-bit
  \<open>char\<close>). The helpers below are the functions of the Go packages \<open>strings\<close>,
  \<open>path\<close> and \<open>path/filepath\<close> that \<open>internal/version/version.go\<close> calls.
  \<open>path/filepath\<close> is modelled for a GOOS whose separator is \<open>/\<close>, where
  \<open>filepath.FromSlash\<close> is the identity.
\<close>

type_synonym bytes = string

fun strings_Index :: "string \<Rightarrow> string \<Rightarrow> int" where
  "strings_Index [] sep = (if sep = [] then 0 else -1)"
| "strings_Index (c # s) sep =
     (if prefix sep (c # s) then 0
      else (let i = strings_Index s sep in if i < 0 then -1 else i + 1))"

definition strings_Contains :: "string \<Rightarrow> string \<Rightarrow> bool" where
  "strings_Contains s sub = (strings_Index s sub \<ge> 0)"

definition strings_HasPrefix :: "string \<Rightarrow> string \<Rightarrow> bool" where
  "strings_HasPrefix s p = prefix p s"

definition strings_HasSuffix :: "string \<Rightarrow> string \<Rightarrow> bool" where
  "strings_HasSuffix s p = suffix p s"

definition strings_TrimPrefix :: "string \<Rightarrow> string \<Rightarrow> string" where
  "strings_TrimPrefix s p = (if strings_HasPrefix s p then drop (length p) s else s)"

text \<open>
  \<open>strings.ToLower\<close> maps every Unicode letter to lower case and rewrites bytes that are
  not valid UTF-8; it is not defined here but taken from the world (its field
  \<open>strings_ToLower\<close>), and the functions that call it take it as the argument
  \<open>toLower\<close>. On a string of ASCII bytes it is \<open>ascii_lower\<close>, which the examples use.
\<close>

definition lower_char :: "char \<Rightarrow> char" where
  "lower_char c =
     (if (65::nat) \<le> of_char c \<and> of_char c \<le> (90::nat)
      then Char (digit0 c) (digit1 c) (digit2 c) (digit3 c) (digit4 c) True (digit6 c) (digit7 c)
      else c)"

definition ascii_lower :: "string \<Rightarrow> string" where
  "ascii_lower s = map lower_char s"

text \<open>\<open>strings.TrimSpace\<close> for the ASCII white space characters.\<close>

definition isSpace :: "char \<Rightarrow> bool" where
  "isSpace c \<longleftrightarrow> c \<in> {CHR '' '', CHR 0x09, CHR 0x0A, CHR 0x0B, CHR 0x0C, CHR 0x0D}"

definition strings_TrimSpace :: "string \<Rightarrow> string" where
  "strings_TrimSpace s = rev (dropWhile isSpace (rev (dropWhile isSpace s)))"

fun split_slash :: "string \<Rightarrow> string list" where
  "split_slash [] = [[]]"
| "split_slash (c # s) =
     (if c = CHR ''/'' then [] # split_slash s
      else (case split_slash s of [] \<Rightarrow> [[c]] | e # es \<Rightarrow> (c # e) # es))"

fun join_slash :: "string list \<Rightarrow> string" where
  "join_slash [] = []"
| "join_slash [e] = e"
| "join_slash (e # e' # es) = e @ ''/'' @ join_slash (e' # es)"

text \<open>
  \<open>filepath.Clean\<close>: empty and \<open>.\<close> elements are dropped, a \<open>..\<close> element removes
  the element before it, is dropped at the root, and is kept at the start of a relative
  path.
\<close>

definition clean_elem :: "bool \<Rightarrow> string list \<Rightarrow> string \<Rightarrow> string list" where
  "clean_elem rooted out e =
     (if e = [] \<or> e = ''.'' then out
      else if e = ''..'' then
        (if out \<noteq> [] \<and> last out \<noteq> ''..'' then butlast out
         else if rooted then out
         else out @ [''..''])
      else out @ [e])"

definition filepath_Clean :: "string \<Rightarrow> string" where
  "filepath_Clean p =
     (if p = [] then ''.''
      else
        let rooted = (hd p = CHR ''/'');
            out = foldl (clean_elem rooted) [] (split_slash p)
        in if rooted then CHR ''/'' # join_slash out
           else if out = [] then ''.''
           else join_slash out)"

definition filepath_Join :: "string list \<Rightarrow> string" where
  "filepath_Join elem =
     (case dropWhile (\<lambda>e. e = []) elem of
        [] \<Rightarrow> []
      | es \<Rightarrow> filepath_Clean (join_slash es))"

definition filepath_Dir :: "string \<Rightarrow> string" where
  "filepath_Dir p = filepath_Clean (rev (dropWhile (\<lambda>c. c \<noteq> CHR ''/'') (rev p)))"

definition filepath_FromSlash :: "string \<Rightarrow> string" where
  "filepath_FromSlash p = p"

definition path_Base :: "string \<Rightarrow> string" where
  "path_Base p =
     (if p = [] then ''.''
      else
        let p1 = rev (dropWhile (\<lambda>c. c = CHR ''/'') (rev p));
            p2 = rev (takeWhile (\<lambda>c. c \<noteq> CHR ''/'') (rev p1))
        in if p2 = [] then ''/'' else p2)"

section \<open>SHA-256 and hexadecimal encoding\<close>

text \<open>
  \<open>crypto/sha256\<close> (FIPS 180-4) on bytes given as numbers below 256. The 32-bit words are
  natural numbers with the wrap-around written out (\<open>m32\<close>).
\<close>

definition m32 :: "nat \<Rightarrow> nat" where
  "m32 x = x mod 4294967296"

definition rotr :: "nat \<Rightarrow> nat \<Rightarrow> nat" where
  "rotr n x = (x div 2 ^ n) + (x mod 2 ^ n) * 2 ^ (32 - n)"

definition not32 :: "nat \<Rightarrow> nat" where
  "not32 x = 4294967295 - x"

definition Ch :: "nat \<Rightarrow> nat \<Rightarrow> nat \<Rightarrow> nat" where
  "Ch x y z = (x AND y) XOR (not32 x AND z)"

definition Maj :: "nat \<Rightarrow> nat \<Rightarrow> nat \<Rightarrow> nat" where
  "Maj x y z = (x AND y) XOR (x AND z) XOR (y AND z)"

definition bsig0 :: "nat \<Rightarrow> nat" where
  "bsig0 x = rotr 2 x XOR rotr 13 x XOR rotr 22 x"

definition bsig1 :: "nat \<Rightarrow> nat" where
  "bsig1 x = rotr 6 x XOR rotr 11 x XOR rotr 25 x"

definition ssig0 :: "nat \<Rightarrow> nat" where
  "ssig0 x = rotr 7 x XOR rotr 18 x XOR (x div 2 ^ 3)"

definition ssig1 :: "nat \<Rightarrow> nat" where
  "ssig1 x = rotr 17 x XOR rotr 19 x XOR (x div 2 ^ 10)"

fun round256 :: "nat list \<Rightarrow> nat \<Rightarrow> nat \<Rightarrow> nat list" where
  "round256 [a, b, c, d, e, f, g, h] k w =
     (let t1 = m32 (h + bsig1 e + Ch e f g + k + w);
          t2 = m32 (bsig0 a + Maj a b c)
      in [m32 (t1 + t2), a, b, c, m32 (d + t1), e, f, g])"
| "round256 s _ _ = s"

text \<open>The message schedule is kept as a window of the sixteen most recent words.\<close>

definition next_window :: "nat list \<Rightarrow> nat list" where
  "next_window w = tl w @ [m32 (ssig1 (w ! 14) + w ! 9 + ssig0 (w ! 1) + w ! 0)]"

fun rounds :: "nat list \<Rightarrow> nat list \<Rightarrow> nat list \<Rightarrow> nat list" where
  "rounds [] w s = s"
| "rounds (k # ks) w s = rounds ks (next_window w) (round256 s k (hd w))"

definition K256 :: "nat list" where
  "K256 = [
  1116352408, 1899447441, 3049323471, 3921009573, 961987163, 1508970993, 2453635748, 2870763221,
  3624381080, 310598401, 607225278, 1426881987, 1925078388, 2162078206, 2614888103, 3248222580,
  3835390401, 4022224774, 264347078, 604807628, 770255983, 1249150122, 1555081692, 1996064986,
  2554220882, 2821834349, 2952996808, 3210313671, 3336571891, 3584528711, 113926993, 338241895,
  666307205, 773529912, 1294757372, 1396182291, 1695183700, 1986661051, 2177026350, 2456956037,
  2730485921, 2820302411, 3259730800, 3345764771, 3516065817, 3600352804, 4094571909, 275423344,
  430227734, 506948616, 659060556, 883997877, 958139571, 1322822218, 1537002063, 1747873779,
  1955562222, 2024104815, 2227730452, 2361852424, 2428436474, 2756734187, 3204031479, 3329325298]"

definition H256 :: "nat list" where
  "H256 = [1779033703, 3144134277, 1013904242, 2773480762,
           1359893119, 2600822924, 528734635, 1541459225]"

definition compress :: "nat list \<Rightarrow> nat list \<Rightarrow> nat list" where
  "compress hs block = map m32 (map2 (+) hs (rounds K256 block hs))"

fun be_words :: "nat list \<Rightarrow> nat list" where
  "be_words (a # b # c # d # rest) = (16777216 * a + 65536 * b + 256 * c + d) # be_words rest"
| "be_words _ = []"

definition be_bytes4 :: "nat \<Rightarrow> nat list" where
  "be_bytes4 x = [x div 16777216 mod 256, x div 65536 mod 256, x div 256 mod 256, x mod 256]"

definition be_bytes8 :: "nat \<Rightarrow> nat list" where
  "be_bytes8 x = be_bytes4 (x div 4294967296) @ be_bytes4 (x mod 4294967296)"

definition pad256 :: "nat list \<Rightarrow> nat list" where
  "pad256 m =
     m @ [128] @ replicate ((119 - length m mod 64) mod 64) 0 @ be_bytes8 (8 * length m)"

function blocks64 :: "nat list \<Rightarrow> nat list list" where
  "blocks64 bs = (if length bs < 64 then [] else take 64 bs # blocks64 (drop 64 bs))"
  by pat_completeness auto
termination
  by (relation "measure length") auto

definition sha256 :: "nat list \<Rightarrow> nat list" where
  "sha256 m = concat (map be_bytes4 (foldl compress H256 (map be_words (blocks64 (pad256 m)))))"

definition sha256_Sum :: "bytes \<Rightarrow> nat list" where
  "sha256_Sum data = sha256 (map of_char data)"

text \<open>\<open>fmt.Sprintf("%x", b)\<close> for a byte slice: two lower-case digits per byte.\<close>

definition hex_digit :: "nat \<Rightarrow> char" where
  "hex_digit n = ''0123456789abcdef'' ! (n mod 16)"

definition hex_encode :: "nat list \<Rightarrow> string" where
  "hex_encode bs = concat (map (\<lambda>b. [hex_digit (b div 16), hex_digit b]) bs)"

section \<open>The world outside the program\<close>

text \<open>
  The program acts on a file system, an HTTP server, archive decoders of the standard
  library and a child process. They are one record, \<open>world\<close>, passed through every
  function that has an effect:
  \<^item> \<open>fs\<close> maps a cleaned path to a regular file with its contents or to a directory;
    \<open>/\<close> and \<open>.\<close> are always directories. Permission bits and modification times are
    not kept, so \<open>os.Chtimes\<close> has no effect and never fails in the model.
  \<^item> an operation on a path in \<open>denied\<close> fails with \<open>EACCES\<close>; \<open>os.Remove\<close> also fails
    with \<open>EACCES\<close> on a path in \<open>remove_denied\<close> (a file in a directory that may not be
    written can be opened and truncated, but not unlinked); closing a file in
    \<open>close_fails\<close> fails with \<open>EIO\<close>;
  \<^item> \<open>file_limit\<close>, when set, is the size at which a write to a file fails with
    \<open>ENOSPC\<close>;
  \<^item> \<open>http_head\<close> and \<open>http_get\<close> give the server's answer to a request, \<open>None\<close> when
    the transport fails;
  \<^item> \<open>gunzip_untar\<close> and \<open>unzip\<close> are \<open>compress/gzip\<close> with \<open>archive/tar\<close>, and
    \<open>archive/zip\<close>: they read the bytes of an archive file as a sequence of entries;
  \<^item> \<open>goos\<close>, \<open>goarch\<close>, \<open>environ\<close> are \<open>runtime.GOOS\<close>, \<open>runtime.GOARCH\<close> and
    \<open>os.Environ()\<close>; \<open>strings_ToLower\<close> is \<open>strings.ToLower\<close>;
  \<^item> \<open>trace\<close> lists the effects so far, oldest first: log lines, requests sent and
    successful file-system calls.
\<close>

datatype errno = ENOENT | EACCES | EISDIR | ENOTDIR | ENOTEMPTY | ENOSPC | EIO

datatype node = File bytes | Dir

record head_response =
  head_status :: nat
  head_content_length :: int

record get_response =
  get_status :: nat
  get_content_length :: int
  get_body :: bytes
  get_body_fails :: bool

datatype tar_kind = TarRegular | TarDirectory | TarOther

record tar_entry =
  tar_name :: string
  tar_kind :: tar_kind
  tar_size :: int
  tar_data :: bytes
  tar_data_fails :: bool

record tar_stream =
  tar_entries :: "tar_entry list"
  tar_broken :: bool

record zip_entry =
  zip_name :: string
  zip_is_dir :: bool
  zip_open_fails :: bool
  zip_data :: bytes
  zip_data_fails :: bool

datatype event =
    EvLog string
  | EvHead string
  | EvGet string
  | EvMkdirAll string
  | EvCreate string
  | EvOpenFile string
  | EvWriteFile string
  | EvRemove string

record world =
  fs :: "string \<rightharpoonup> node"
  denied :: "string list"
  remove_denied :: "string list"
  close_fails :: "string list"
  file_limit :: "nat option"
  http_head :: "string \<Rightarrow> head_response option"
  http_get :: "string \<Rightarrow> get_response option"
  gunzip_untar :: "bytes \<Rightarrow> tar_stream option"
  unzip :: "bytes \<Rightarrow> zip_entry list option"
  goos :: string
  goarch :: string
  environ :: "string list"
  strings_ToLower :: "string \<Rightarrow> string"
  trace :: "event list"

text \<open>
  Errors are values. The constructors from \<open>NoBinaryRelease\<close> on stand for the
  \<open>fmt.Errorf\<close> and \<open>errors.New\<close> calls of version.go, with the arguments of the format.
\<close>

datatype error =
    PathError string string errno
  | TransportError string
  | UnexpectedEOF
  | FormatError string
  | NoBinaryRelease string string string string
  | ServerReturned nat string
  | ErrorDownloading string error
  | DownloadedSizeMismatch string int int
  | ErrorVerifying string error
  | ExtractingArchive string error
  | UnsupportedArchive
  | TarInvalidName string
  | ErrorWriting string error
  | OnlyWrote int string int
  | TarUnsupportedType string
  | Corrupt string string
  | SlurpStatus string nat
  | SlurpReading string error
  | StatusError nat
  | CopiedExpected int int

definition emit :: "event \<Rightarrow> world \<Rightarrow> world" where
  "emit ev w = w\<lparr>trace := trace w @ [ev]\<rparr>"

definition log_Printf :: "string \<Rightarrow> world \<Rightarrow> world" where
  "log_Printf msg w = emit (EvLog msg) w"

subsection \<open>File system calls\<close>

definition node_at :: "world \<Rightarrow> string \<Rightarrow> node option" where
  "node_at w c = (if c = ''/'' \<or> c = ''.'' then Some Dir else fs w c)"

definition node_size :: "node \<Rightarrow> int" where
  "node_size n = (case n of File data \<Rightarrow> int (length data) | Dir \<Rightarrow> 4096)"

definition os_Stat :: "world \<Rightarrow> string \<Rightarrow> errno + node" where
  "os_Stat w p =
     (let c = filepath_Clean p
      in if c \<in> set (denied w) then Inl EACCES
         else (case node_at w c of None \<Rightarrow> Inl ENOENT | Some n \<Rightarrow> Inr n))"

definition os_IsNotExist :: "errno \<Rightarrow> bool" where
  "os_IsNotExist e \<longleftrightarrow> e = ENOENT"

text \<open>The path itself and the directories above it, outermost first.\<close>

definition path_chain :: "string \<Rightarrow> string list" where
  "path_chain c =
     (let rooted = (c \<noteq> [] \<and> hd c = CHR ''/'');
          elems = filter (\<lambda>e. e \<noteq> [] \<and> e \<noteq> ''.'') (split_slash c)
      in map (\<lambda>es. if rooted then CHR ''/'' # join_slash es else join_slash es)
           (tl (prefixes elems)))"

definition is_File :: "node option \<Rightarrow> bool" where
  "is_File n = (case n of Some (File _) \<Rightarrow> True | _ \<Rightarrow> False)"

definition os_MkdirAll :: "string \<Rightarrow> world \<Rightarrow> (error + unit) \<times> world" where
  "os_MkdirAll p w =
     (let c = filepath_Clean p; chain = path_chain c
      in if c \<in> set (denied w) then (Inl (PathError ''mkdir'' p EACCES), w)
         else if list_ex (\<lambda>a. is_File (node_at w a)) chain
         then (Inl (PathError ''mkdir'' p ENOTDIR), w)
         else (Inr (),
               emit (EvMkdirAll c) (w\<lparr>fs := foldl (\<lambda>m a. m(a \<mapsto> Dir)) (fs w) chain\<rparr>)))"

text \<open>
  Opening with \<open>O_CREATE|O_TRUNC\<close>, as \<open>os.Create\<close>, \<open>os.OpenFile\<close> and \<open>os.WriteFile\<close>
  do: the result is the world with an empty file at the cleaned path.
\<close>

definition open_trunc :: "string \<Rightarrow> world \<Rightarrow> errno + world" where
  "open_trunc c w =
     (if c \<in> set (denied w) then Inl EACCES
      else (case node_at w c of
              Some Dir \<Rightarrow> Inl EISDIR
            | _ \<Rightarrow>
               (case node_at w (filepath_Dir c) of
                  Some Dir \<Rightarrow> Inr (w\<lparr>fs := (fs w)(c \<mapsto> File [])\<rparr>)
                | Some (File _) \<Rightarrow> Inl ENOTDIR
                | None \<Rightarrow> Inl ENOENT)))"

text \<open>
  An open file is named by its cleaned path. Every path that the program opens is a
  result of \<open>filepath.Join\<close>, which is clean, so this is also the name that the errors of
  the file carry.
\<close>

definition os_Create :: "string \<Rightarrow> world \<Rightarrow> (error + string) \<times> world" where
  "os_Create p w =
     (let c = filepath_Clean p
      in case open_trunc c w of
           Inl e \<Rightarrow> (Inl (PathError ''open'' p e), w)
         | Inr w' \<Rightarrow> (Inr c, emit (EvCreate c) w'))"

definition os_OpenFile :: "string \<Rightarrow> world \<Rightarrow> (error + string) \<times> world" where
  "os_OpenFile p w =
     (let c = filepath_Clean p
      in case open_trunc c w of
           Inl e \<Rightarrow> (Inl (PathError ''open'' p e), w)
         | Inr w' \<Rightarrow> (Inr c, emit (EvOpenFile c) w'))"

text \<open>Appending to an open file: the bytes that fit are written.\<close>

definition file_Write :: "string \<Rightarrow> bytes \<Rightarrow> world \<Rightarrow> (nat \<times> errno option) \<times> world" where
  "file_Write f data w =
     (let old = (case fs w f of Some (File d) \<Rightarrow> d | _ \<Rightarrow> []);
          room = (case file_limit w of None \<Rightarrow> length data | Some m \<Rightarrow> m - length old);
          written = take room data
      in ((length written, if length written < length data then Some ENOSPC else None),
          w\<lparr>fs := (fs w)(f \<mapsto> File (old @ written))\<rparr>))"

text \<open>
  Closing a file changes nothing in the model; it reports an error for the files of
  \<open>close_fails\<close>.
\<close>

definition file_Close :: "string \<Rightarrow> world \<Rightarrow> error option \<times> world" where
  "file_Close f w =
     (if f \<in> set (close_fails w) then (Some (PathError ''close'' f EIO), w) else (None, w))"

text \<open>
  \<open>io.Copy\<close> from a stream that delivers \<open>data\<close> and then ends, with an error when
  \<open>src_fails\<close>, into the open file \<open>f\<close>: the count of bytes written and the first error.
\<close>

definition io_Copy :: "string \<Rightarrow> bytes \<Rightarrow> bool \<Rightarrow> world \<Rightarrow> (int \<times> error option) \<times> world" where
  "io_Copy f data src_fails w =
     (case file_Write f data w of
        ((n, Some e), w') \<Rightarrow> ((int n, Some (PathError ''write'' f e)), w')
      | ((n, None), w') \<Rightarrow> ((int n, if src_fails then Some UnexpectedEOF else None), w'))"

definition os_Remove :: "string \<Rightarrow> world \<Rightarrow> (error + unit) \<times> world" where
  "os_Remove p w =
     (let c = filepath_Clean p
      in if c \<in> set (denied w) \<or> c \<in> set (remove_denied w)
         then (Inl (PathError ''remove'' p EACCES), w)
         else (case node_at w c of
                 None \<Rightarrow> (Inl (PathError ''remove'' p ENOENT), w)
               | Some Dir \<Rightarrow> (Inl (PathError ''remove'' p ENOTEMPTY), w)
               | Some (File _) \<Rightarrow> (Inr (), emit (EvRemove c) (w\<lparr>fs := (fs w)(c := None)\<rparr>))))"

text \<open>
  \<open>os.WriteFile\<close> opens with \<open>O_CREATE|O_TRUNC\<close>, writes, and closes; the error is the
  write error, or else the close error.
\<close>

definition os_WriteFile :: "string \<Rightarrow> bytes \<Rightarrow> world \<Rightarrow> (error + unit) \<times> world" where
  "os_WriteFile p data w =
     (let c = filepath_Clean p
      in case open_trunc c w of
           Inl e \<Rightarrow> (Inl (PathError ''open'' p e), w)
         | Inr w1 \<Rightarrow>
            (case file_Write c data (emit (EvWriteFile c) w1) of
               ((n, werr), w2) \<Rightarrow>
                 (case file_Close c w2 of
                    (cerr, w3) \<Rightarrow>
                      (case werr of
                         Some e \<Rightarrow> (Inl (PathError ''write'' p e), w3)
                       | None \<Rightarrow>
                          (case cerr of
                             Some err \<Rightarrow> (Inl err, w3)
                           | None \<Rightarrow> (Inr (), w3))))))"

text \<open>Opening for reading gives the node; reading a directory fails.\<close>

definition os_Open :: "world \<Rightarrow> string \<Rightarrow> error + node" where
  "os_Open w p =
     (case os_Stat w p of
        Inl e \<Rightarrow> Inl (PathError ''open'' p e)
      | Inr n \<Rightarrow> Inr n)"

definition read_all :: "string \<Rightarrow> node \<Rightarrow> error + bytes" where
  "read_all p n =
     (case n of
        File data \<Rightarrow> Inr data
      | Dir \<Rightarrow> Inl (PathError ''read'' p EISDIR))"

section \<open>internal/version/version.go\<close>

subsection \<open>Constants and small helpers\<close>

definition unpackedOkay :: string where
  "unpackedOkay = ''.unpacked-success''"

definition getOS :: "world \<Rightarrow> string" where
  "getOS w = goos w"

definition caseInsensitiveEnv :: "world \<Rightarrow> bool" where
  "caseInsensitiveEnv w \<longleftrightarrow> goos w = ''windows''"

definition exe :: "world \<Rightarrow> string" where
  "exe w = (if goos w = ''windows'' then ''.exe'' else '''')"

definition filepath_ListSeparator :: "world \<Rightarrow> char" where
  "filepath_ListSeparator w = (if goos w = ''windows'' then CHR '';'' else CHR '':'')"

definition versionArchiveURL :: "world \<Rightarrow> string \<Rightarrow> string" where
  "versionArchiveURL w version =
     (let goos = getOS w;
          ext = (if goos = ''windows'' then ''.zip'' else ''.tar.gz'');
          arch = (if goos = ''linux'' \<and> goarch w = ''arm'' then ''armv6l'' else goarch w)
      in ''https://dl.google.com/go/'' @ version @ ''.'' @ goos @ ''-'' @ arch @ ext)"

definition validRelPath :: "string \<Rightarrow> bool" where
  "validRelPath p =
     (if p = [] \<or> strings_Contains p [CHR 0x5C] \<or> strings_HasPrefix p ''/''
         \<or> strings_Contains p ''../''
      then False else True)"

subsection \<open>dedupEnv\<close>

text \<open>
  The loop of \<open>dedupEnv\<close> over \<open>env\<close>, with the slice \<open>out\<close> and the map \<open>saw\<close>. The
  assignment \<open>out[dupIdx] = kv\<close> panics when the index is out of range: the result is
  \<open>None\<close> then.
\<close>

fun dedupEnv_loop ::
  "(string \<Rightarrow> string) \<Rightarrow> bool \<Rightarrow> string list \<Rightarrow> string list \<Rightarrow> (string \<rightharpoonup> nat) \<Rightarrow>
   string list option" where
  "dedupEnv_loop toLower caseInsensitive [] out saw = Some out"
| "dedupEnv_loop toLower caseInsensitive (kv # env) out saw =
     (let eq = strings_Index kv ''=''
      in if eq < 1 then dedupEnv_loop toLower caseInsensitive env (out @ [kv]) saw
         else
           let k = take (nat eq) kv;
               k = (if caseInsensitive then toLower k else k)
           in (case saw k of
                 Some dupIdx \<Rightarrow>
                   if dupIdx < length out
                   then dedupEnv_loop toLower caseInsensitive env (out[dupIdx := kv]) saw
                   else None
               | None \<Rightarrow>
                   dedupEnv_loop toLower caseInsensitive env (out @ [kv])
                     (saw(k \<mapsto> length out))))"

definition dedupEnv :: "(string \<Rightarrow> string) \<Rightarrow> bool \<Rightarrow> string list \<Rightarrow> string list option" where
  "dedupEnv toLower caseInsensitive env =
     dedupEnv_loop toLower caseInsensitive env [] Map.empty"

subsection \<open>runGo\<close>

text \<open>
  \<open>os.Getenv\<close>: the value of the first entry of the environment with the given name, the
  empty string when there is none. On Windows the system compares names without case, by
  a rule of its own; the model takes \<open>strings.ToLower\<close> for it. No property below depends
  on which entry \<open>os.Getenv\<close> finds.
\<close>

definition os_Getenv :: "world \<Rightarrow> string \<Rightarrow> string" where
  "os_Getenv w key =
     (let n = length key;
          named = (\<lambda>kv. n < length kv \<and> kv ! n = CHR ''='' \<and>
                     (if caseInsensitiveEnv w
                      then strings_ToLower w (take n kv) = strings_ToLower w key
                      else take n kv = key))
      in case filter named (environ w) of
           [] \<Rightarrow> []
         | kv # _ \<Rightarrow> drop (Suc n) kv)"

record command =
  cmd_Path :: string
  cmd_Args :: "string list"
  cmd_Env :: "string list"

text \<open>
  The command \<open>runGo\<close> builds from \<open>root\<close> and the arguments after the program name
  (lines 58 to 67).
\<close>

definition runGo_command :: "world \<Rightarrow> string \<Rightarrow> string list \<Rightarrow> command option" where
  "runGo_command w root args =
     (let gobin = filepath_Join [root, ''bin'', ''go'' @ exe w];
          newPath = filepath_Join [root, ''bin''];
          p = os_Getenv w ''PATH'';
          newPath = (if p \<noteq> [] then newPath @ [filepath_ListSeparator w] @ p else newPath)
      in case dedupEnv (strings_ToLower w) (caseInsensitiveEnv w)
                (environ w @ [''GOROOT='' @ root, ''PATH='' @ newPath]) of
           None \<Rightarrow> None
         | Some env \<Rightarrow> Some \<lparr>cmd_Path = gobin, cmd_Args = args, cmd_Env = env\<rparr>)"

text \<open>
  How the child ended, and what \<open>cmd.Run\<close> returns for it: \<open>nil\<close> when it exited with 0,
  an \<open>*exec.ExitError\<close> when it exited with another code or was killed by a signal (its
  \<open>ExitCode()\<close> is then -1), another error when it could not be started.
\<close>

datatype child_end = Exited nat | Signaled nat | NotStarted

datatype run_error = ExitError int | StartError

definition cmd_Run :: "child_end \<Rightarrow> run_error option" where
  "cmd_Run c =
     (case c of
        Exited code \<Rightarrow> if code = 0 then None else Some (ExitError (int code))
      | Signaled sig \<Rightarrow> Some (ExitError (- 1))
      | NotStarted \<Rightarrow> Some StartError)"

text \<open>The argument of \<open>os.Exit\<close> at the end of \<open>runGo\<close> (lines 71 to 77).\<close>

definition runGo_exit :: "run_error option \<Rightarrow> int" where
  "runGo_exit err =
     (case err of
        Some (ExitError code) \<Rightarrow> code
      | Some _ \<Rightarrow> 1
      | None \<Rightarrow> 0)"

subsection \<open>verifySHA256, slurpURLToString, copyFromURL\<close>

definition verifySHA256 :: "world \<Rightarrow> string \<Rightarrow> string \<Rightarrow> error + unit" where
  "verifySHA256 w file wantHex =
     (case os_Open w file of
        Inl err \<Rightarrow> Inl err
      | Inr f \<Rightarrow>
         (case read_all file f of
            Inl err \<Rightarrow> Inl err
          | Inr data \<Rightarrow>
             if hex_encode (sha256_Sum data) \<noteq> wantHex then Inl (Corrupt file wantHex)
             else Inr ()))"

definition slurpURLToString :: "string \<Rightarrow> world \<Rightarrow> (error + string) \<times> world" where
  "slurpURLToString url w =
     (let w1 = emit (EvGet url) w
      in case http_get w url of
           None \<Rightarrow> (Inl (TransportError url), w1)
         | Some res \<Rightarrow>
            if get_status res \<noteq> 200 then (Inl (SlurpStatus url (get_status res)), w1)
            else if get_body_fails res then (Inl (SlurpReading url UnexpectedEOF), w1)
            else (Inr (get_body res), w1))"

text \<open>
  The deferred function of \<open>copyFromURL\<close>, run when the named result \<open>err\<close> is not nil:
  \<open>f.Close()\<close>, then \<open>os.Remove(dstFile)\<close>, both results dropped.
\<close>

definition copyFromURL_failed ::
  "string \<Rightarrow> string \<Rightarrow> error \<Rightarrow> world \<Rightarrow> (error + unit) \<times> world" where
  "copyFromURL_failed f dstFile err w =
     (Inl err, snd (os_Remove dstFile (snd (file_Close f w))))"

text \<open>
  The progress lines that \<open>progressWriter\<close> prints to standard error depend on the clock
  and are not part of the trace.
\<close>

definition copyFromURL :: "string \<Rightarrow> string \<Rightarrow> world \<Rightarrow> (error + unit) \<times> world" where
  "copyFromURL dstFile srcURL w =
     (case os_Create dstFile w of
        (Inl err, w1) \<Rightarrow> (Inl err, w1)
      | (Inr f, w1) \<Rightarrow>
         (let w2 = emit (EvGet srcURL) w1
          in case http_get w srcURL of
               None \<Rightarrow> copyFromURL_failed f dstFile (TransportError srcURL) w2
             | Some res \<Rightarrow>
                if get_status res \<noteq> 200
                then copyFromURL_failed f dstFile (StatusError (get_status res)) w2
                else
                  (case io_Copy f (get_body res) (get_body_fails res) w2 of
                     ((n, Some err), w3) \<Rightarrow> copyFromURL_failed f dstFile err w3
                   | ((n, None), w3) \<Rightarrow>
                      if get_content_length res \<noteq> - 1 \<and> get_content_length res \<noteq> n
                      then copyFromURL_failed f dstFile
                             (CopiedExpected n (get_content_length res)) w3
                      else
                        (case file_Close f w3 of
                           (Some err, w4) \<Rightarrow> copyFromURL_failed f dstFile err w4
                         | (None, w4) \<Rightarrow> (Inr (), w4)))))"

subsection \<open>Unpacking\<close>

text \<open>
  The loop of \<open>unpackTarGz\<close> over the entries that \<open>tr.Next()\<close> returns; \<open>broken\<close> says
  that after them \<open>tr.Next()\<close> returns an error instead of \<open>io.EOF\<close>.
\<close>

fun unpackTarGz_loop ::
  "string \<Rightarrow> tar_entry list \<Rightarrow> bool \<Rightarrow> (string \<Rightarrow> bool) \<Rightarrow> world \<Rightarrow> (error + unit) \<times> world" where
  "unpackTarGz_loop targetDir [] broken madeDir w =
     (if broken then (Inl UnexpectedEOF, w) else (Inr (), w))"
| "unpackTarGz_loop targetDir (f # rest) broken madeDir w =
     (if \<not> validRelPath (tar_name f) then (Inl (TarInvalidName (tar_name f)), w)
      else
        let rel = filepath_FromSlash (strings_TrimPrefix (tar_name f) ''go/'');
            abspath = filepath_Join [targetDir, rel]
        in case tar_kind f of
             TarRegular \<Rightarrow>
               (let dir = filepath_Dir abspath
                in case (if \<not> madeDir dir then os_MkdirAll (filepath_Dir abspath) w
                         else (Inr (), w)) of
                     (Inl err, w1) \<Rightarrow> (Inl err, w1)
                   | (Inr _, w1) \<Rightarrow>
                      (let madeDir1 = (if \<not> madeDir dir then madeDir(dir := True) else madeDir)
                       in case os_OpenFile abspath w1 of
                            (Inl err, w2) \<Rightarrow> (Inl err, w2)
                          | (Inr wfile, w2) \<Rightarrow>
                             (case io_Copy wfile (tar_data f) (tar_data_fails f) w2 of
                                ((n, err), w3) \<Rightarrow>
                                  (case file_Close wfile w3 of
                                     (closeErr, w4) \<Rightarrow>
                                       (let err1 = (if closeErr \<noteq> None \<and> err = None
                                                    then closeErr else err)
                                        in case err1 of
                                             Some e \<Rightarrow> (Inl (ErrorWriting abspath e), w4)
                                           | None \<Rightarrow>
                                              if n \<noteq> tar_size f
                                              then (Inl (OnlyWrote n abspath (tar_size f)), w4)
                                              else unpackTarGz_loop targetDir rest broken
                                                     madeDir1 w4)))))
           | TarDirectory \<Rightarrow>
               (case os_MkdirAll abspath w of
                  (Inl err, w1) \<Rightarrow> (Inl err, w1)
                | (Inr _, w1) \<Rightarrow>
                    unpackTarGz_loop targetDir rest broken (madeDir(abspath := True)) w1)
           | TarOther \<Rightarrow> (Inl (TarUnsupportedType (tar_name f)), w))"

definition unpackTarGz :: "string \<Rightarrow> string \<Rightarrow> world \<Rightarrow> (error + unit) \<times> world" where
  "unpackTarGz targetDir archiveFile w =
     (case os_Open w archiveFile of
        Inl err \<Rightarrow> (Inl err, w)
      | Inr r \<Rightarrow>
         (case read_all archiveFile r of
            Inl err \<Rightarrow> (Inl err, w)
          | Inr data \<Rightarrow>
             (case gunzip_untar w data of
                None \<Rightarrow> (Inl (FormatError archiveFile), w)
              | Some tr \<Rightarrow>
                  unpackTarGz_loop targetDir (tar_entries tr) (tar_broken tr)
                    (\<lambda>_. False) w)))"

fun unpackZip_loop :: "string \<Rightarrow> zip_entry list \<Rightarrow> world \<Rightarrow> (error + unit) \<times> world" where
  "unpackZip_loop targetDir [] w = (Inr (), w)"
| "unpackZip_loop targetDir (f # rest) w =
     (let name = strings_TrimPrefix (zip_name f) ''go/'';
          outpath = filepath_Join [targetDir, name]
      in if zip_is_dir f then
           (case os_MkdirAll outpath w of
              (Inl err, w1) \<Rightarrow> (Inl err, w1)
            | (Inr _, w1) \<Rightarrow> unpackZip_loop targetDir rest w1)
         else if zip_open_fails f then (Inl (FormatError (zip_name f)), w)
         else
           (case os_MkdirAll (filepath_Dir outpath) w of
              (Inl err, w1) \<Rightarrow> (Inl err, w1)
            | (Inr _, w1) \<Rightarrow>
               (case os_OpenFile outpath w1 of
                  (Inl err, w2) \<Rightarrow> (Inl err, w2)
                | (Inr out, w2) \<Rightarrow>
                   (case io_Copy out (zip_data f) (zip_data_fails f) w2 of
                      ((n, Some err), w3) \<Rightarrow> (Inl err, snd (file_Close out w3))
                    | ((n, None), w3) \<Rightarrow>
                       (case file_Close out w3 of
                          (Some err, w4) \<Rightarrow> (Inl err, w4)
                        | (None, w4) \<Rightarrow> unpackZip_loop targetDir rest w4)))))"

definition unpackZip :: "string \<Rightarrow> string \<Rightarrow> world \<Rightarrow> (error + unit) \<times> world" where
  "unpackZip targetDir archiveFile w =
     (case os_Open w archiveFile of
        Inl err \<Rightarrow> (Inl err, w)
      | Inr r \<Rightarrow>
         (case read_all archiveFile r of
            Inl err \<Rightarrow> (Inl err, w)
          | Inr data \<Rightarrow>
             (case unzip w data of
                None \<Rightarrow> (Inl (FormatError archiveFile), w)
              | Some files \<Rightarrow> unpackZip_loop targetDir files w)))"

definition unpackArchive :: "string \<Rightarrow> string \<Rightarrow> world \<Rightarrow> (error + unit) \<times> world" where
  "unpackArchive targetDir archiveFile w =
     (if strings_HasSuffix archiveFile ''.zip'' then unpackZip targetDir archiveFile w
      else if strings_HasSuffix archiveFile ''.tar.gz'' then unpackTarGz targetDir archiveFile w
      else (Inl UnsupportedArchive, w))"

subsection \<open>install\<close>

text \<open>
  Lines 126 to 141 of \<open>install\<close>: the archive file is kept when \<open>os.Stat\<close> finds it with
  the size \<open>contentLength\<close> of the HEAD response, and downloaded otherwise.
\<close>

definition install_archive ::
  "string \<Rightarrow> string \<Rightarrow> int \<Rightarrow> world \<Rightarrow> (error + unit) \<times> world" where
  "install_archive archiveFile goURL contentLength w =
     (let st = os_Stat w archiveFile
      in if (case st of Inl err \<Rightarrow> True | Inr fi \<Rightarrow> node_size fi \<noteq> contentLength) then
           (case (case st of Inl err \<Rightarrow> if \<not> os_IsNotExist err then Some err else None
                           | Inr fi \<Rightarrow> None) of
              Some err \<Rightarrow> (Inl (PathError ''stat'' archiveFile err), w)
            | None \<Rightarrow>
               (case copyFromURL archiveFile goURL w of
                  (Inl err, w1) \<Rightarrow> (Inl (ErrorDownloading goURL err), w1)
                | (Inr _, w1) \<Rightarrow>
                   (case os_Stat w1 archiveFile of
                      Inl err \<Rightarrow> (Inl (PathError ''stat'' archiveFile err), w1)
                    | Inr fi \<Rightarrow>
                       if node_size fi \<noteq> contentLength
                       then (Inl (DownloadedSizeMismatch archiveFile (node_size fi)
                                    contentLength), w1)
                       else (Inr (), w1))))
         else (Inr (), w))"

definition install :: "string \<Rightarrow> string \<Rightarrow> world \<Rightarrow> (error + unit) \<times> world" where
  "install targetDir version w =
     (case os_Stat w (filepath_Join [targetDir, unpackedOkay]) of
        Inr _ \<Rightarrow>
          (Inr (), log_Printf (version @ '': already downloaded in '' @ targetDir) w)
      | Inl _ \<Rightarrow>
         (case os_MkdirAll targetDir w of
            (Inl err, w1) \<Rightarrow> (Inl err, w1)
          | (Inr _, w1) \<Rightarrow>
             (let goURL = versionArchiveURL w version;
                  w2 = emit (EvHead goURL) w1
              in case http_head w goURL of
                   None \<Rightarrow> (Inl (TransportError goURL), w2)
                 | Some res \<Rightarrow>
                    if head_status res = 404
                    then (Inl (NoBinaryRelease version (getOS w) (goarch w) goURL), w2)
                    else if head_status res \<noteq> 200
                    then (Inl (ServerReturned (head_status res) goURL), w2)
                    else
                      (let base = path_Base goURL;
                           archiveFile = filepath_Join [targetDir, base]
                       in case install_archive archiveFile goURL
                                 (head_content_length res) w2 of
                            (Inl err, w3) \<Rightarrow> (Inl err, w3)
                          | (Inr _, w3) \<Rightarrow>
                             (case slurpURLToString (goURL @ ''.sha256'') w3 of
                                (Inl err, w4) \<Rightarrow> (Inl err, w4)
                              | (Inr wantSHA, w4) \<Rightarrow>
                                 (case verifySHA256 w4 archiveFile
                                         (strings_TrimSpace wantSHA) of
                                    Inl err \<Rightarrow> (Inl (ErrorVerifying archiveFile err), w4)
                                  | Inr _ \<Rightarrow>
                                     (let w5 = log_Printf
                                                 (''Unpacking '' @ archiveFile @ '' ...'') w4
                                      in case unpackArchive targetDir archiveFile w5 of
                                           (Inl err, w6) \<Rightarrow>
                                             (Inl (ExtractingArchive archiveFile err), w6)
                                         | (Inr _, w6) \<Rightarrow>
                                            (case os_WriteFile
                                                    (filepath_Join [targetDir, unpackedOkay])
                                                    [] w6 of
                                               (Inl err, w7) \<Rightarrow> (Inl err, w7)
                                             | (Inr _, w7) \<Rightarrow>
                                                (Inr (),
                                                 log_Printf
                                                   (''Success. You may now run '' @ [CHR 0x27]
                                                      @ version @ [CHR 0x27]) w7)))))))))"

section \<open>Notions used to state the properties\<close>

subsection \<open>Environment lists\<close>

text \<open>
  The key under which \<open>dedupEnv\<close> files an entry: the text before the first \<open>=\<close>, in
  the image under \<open>toLower\<close> when keys are compared without case; \<open>None\<close> for an entry with no \<open>=\<close>
  after its first character.
\<close>

definition env_key :: "(string \<Rightarrow> string) \<Rightarrow> bool \<Rightarrow> string \<Rightarrow> string option" where
  "env_key toLower caseInsensitive kv =
     (let eq = strings_Index kv ''=''
      in if eq < 1 then None
         else Some (let k = take (nat eq) kv
                    in if caseInsensitive then toLower k else k))"

text \<open>
  One step of the loop on the output alone: the entry replaces the first one with its key,
  and is appended when there is none or when it has no key.
\<close>

fun upsert :: "(string \<Rightarrow> string) \<Rightarrow> bool \<Rightarrow> string list \<Rightarrow> string \<Rightarrow> string list" where
  "upsert toLower ci [] kv = [kv]"
| "upsert toLower ci (x # xs) kv =
     (if env_key toLower ci kv \<noteq> None \<and> env_key toLower ci x = env_key toLower ci kv then kv # xs
      else x # upsert toLower ci xs kv)"

text \<open>What \<open>saw\<close> records about \<open>out\<close>: the index of the one entry with each key.\<close>

definition saw_inv :: "(string \<Rightarrow> string) \<Rightarrow> bool \<Rightarrow> string list \<Rightarrow> (string \<rightharpoonup> nat) \<Rightarrow> bool" where
  "saw_inv toLower ci out saw \<longleftrightarrow>
     (\<forall>k i. saw k = Some i \<longleftrightarrow> (i < length out \<and> env_key toLower ci (out ! i) = Some k))"

text \<open>
  The entries of \<open>env\<close> that have no key or are the first with their key (\<open>seen\<close> holds
  the keys met before), in the order of \<open>env\<close>.
\<close>

fun first_occurrences :: "(string \<Rightarrow> string) \<Rightarrow> bool \<Rightarrow> string list \<Rightarrow> string list \<Rightarrow> string list" where
  "first_occurrences toLower ci seen [] = []"
| "first_occurrences toLower ci seen (kv # env) =
     (case env_key toLower ci kv of
        None \<Rightarrow> kv # first_occurrences toLower ci seen env
      | Some k \<Rightarrow>
          if k \<in> set seen then first_occurrences toLower ci seen env
          else kv # first_occurrences toLower ci (k # seen) env)"

text \<open>The last entry of \<open>env\<close> with the key of \<open>kv\<close>; \<open>kv\<close> itself when it has no key.\<close>

definition last_occurrence :: "(string \<Rightarrow> string) \<Rightarrow> bool \<Rightarrow> string list \<Rightarrow> string \<Rightarrow> string" where
  "last_occurrence toLower ci env kv =
     (case env_key toLower ci kv of
        None \<Rightarrow> kv
      | Some k \<Rightarrow> last (kv # filter (\<lambda>x. env_key toLower ci x = Some k) env))"

subsection \<open>Example worlds\<close>

text \<open>
  A Linux machine with the installation directory \<open>/home/u/sdk/go1.21.0\<close> in place,
  nothing in it, and a server that answers no request. Every name of its environment is
  made of ASCII bytes, on which \<open>strings.ToLower\<close> is \<open>ascii_lower\<close>. The examples below
  change it field by field.
\<close>

definition example_world :: world where
  "example_world =
     \<lparr>fs = [''/home'' \<mapsto> Dir, ''/home/u'' \<mapsto> Dir, ''/home/u/sdk'' \<mapsto> Dir,
            ''/home/u/sdk/go1.21.0'' \<mapsto> Dir],
      denied = [], remove_denied = [], close_fails = [], file_limit = None,
      http_head = (\<lambda>_. None), http_get = (\<lambda>_. None),
      gunzip_untar = (\<lambda>_. None), unzip = (\<lambda>_. None),
      goos = ''linux'', goarch = ''amd64'',
      environ = [''HOME=/home/u'', ''PATH=/usr/bin'', ''GOROOT=/old''],
      strings_ToLower = ascii_lower,
      trace = []\<rparr>"

definition example_url :: string where
  "example_url = ''https://dl.google.com/go/go1.21.0.linux-amd64.tar.gz''"

definition example_archive :: string where
  "example_archive = ''/home/u/sdk/go1.21.0/go1.21.0.linux-amd64.tar.gz''"

definition example_marker :: string where
  "example_marker = ''/home/u/sdk/go1.21.0/.unpacked-success''"

text \<open>The SHA-256 digest of the three bytes \<open>abc\<close>, in lower and in upper case.\<close>

definition abc_digest :: string where
  "abc_digest = ''ba7816bf8f01cfea414140de5dae2223b00361a396177a9cb410ff61f20015ad''"

definition abc_digest_upper :: string where
  "abc_digest_upper = ''BA7816BF8F01CFEA414140DE5DAE2223B00361A396177A9CB410FF61F20015AD''"

text \<open>
  The server announces five bytes for the archive and the connection ends after three:
  reading the body gives \<open>abc\<close> and then an unexpected end of file.
\<close>

definition short_body_world :: world where
  "short_body_world =
     example_world\<lparr>http_get := (\<lambda>url. if url = example_url
        then Some \<lparr>get_status = 200, get_content_length = 5, get_body = ''abc'',
                   get_body_fails = True\<rparr>
        else None)\<rparr>"

text \<open>
  The same server; an archive file of an earlier run is on disk, it may be written, and
  the directory does not allow removing it.
\<close>

definition kept_file_world :: world where
  "kept_file_world =
     short_body_world\<lparr>fs := (fs example_world)(example_archive \<mapsto> File ''old archive''),
                      remove_denied := [example_archive]\<rparr>"

text \<open>The archive file is on disk, with the bytes \<open>abc\<close>.\<close>

definition archive_world :: world where
  "archive_world = example_world\<lparr>fs := (fs example_world)(example_archive \<mapsto> File ''abc'')\<rparr>"

text \<open>
  A zip archive with one file entry named \<open>../evil\<close>, and a tar archive with the same
  entry.
\<close>

definition evil_zip_world :: world where
  "evil_zip_world =
     example_world\<lparr>
       fs := (fs example_world)(''/home/u/sdk/go1.21.0/go1.21.0.windows-amd64.zip'' \<mapsto> File ''abc''),
       unzip := (\<lambda>_. Some [\<lparr>zip_name = ''../evil'', zip_is_dir = False,
                                zip_open_fails = False, zip_data = ''x'',
                                zip_data_fails = False\<rparr>])\<rparr>"

definition evil_tar_world :: world where
  "evil_tar_world =
     archive_world\<lparr>gunzip_untar := (\<lambda>_. Some
        \<lparr>tar_entries = [\<lparr>tar_name = ''../evil'', tar_kind = TarRegular, tar_size = 1,
                          tar_data = ''x'', tar_data_fails = False\<rparr>],
         tar_broken = False\<rparr>)\<rparr>"

text \<open>
  A machine with only \<open>/home/u\<close>, and a server with the release \<open>go1.21.0\<close> for
  \<open>linux-amd64\<close>: the archive is the three bytes \<open>abc\<close>, its \<open>.sha256\<close> file holds their
  digest and a newline, and the archive decodes to a directory and two files.
\<close>

definition release_world :: world where
  "release_world =
     \<lparr>fs = [''/home'' \<mapsto> Dir, ''/home/u'' \<mapsto> Dir],
      denied = [], remove_denied = [], close_fails = [], file_limit = None,
      http_head = (\<lambda>url. if url = example_url
         then Some \<lparr>head_status = 200, head_content_length = 3\<rparr> else None),
      http_get = (\<lambda>url.
         if url = example_url
         then Some \<lparr>get_status = 200, get_content_length = 3, get_body = ''abc'',
                    get_body_fails = False\<rparr>
         else if url = example_url @ ''.sha256''
         then Some \<lparr>get_status = 200, get_content_length = 65,
                    get_body = abc_digest @ [CHR 0x0A], get_body_fails = False\<rparr>
         else None),
      gunzip_untar = (\<lambda>_. Some
        \<lparr>tar_entries =
           [\<lparr>tar_name = ''go/bin'', tar_kind = TarDirectory, tar_size = 0, tar_data = [],
              tar_data_fails = False\<rparr>,
            \<lparr>tar_name = ''go/bin/go'', tar_kind = TarRegular, tar_size = 2,
              tar_data = ''go'', tar_data_fails = False\<rparr>,
            \<lparr>tar_name = ''go/VERSION'', tar_kind = TarRegular, tar_size = 8,
              tar_data = ''go1.21.0'', tar_data_fails = False\<rparr>],
         tar_broken = False\<rparr>),
      unzip = (\<lambda>_. None),
      goos = ''linux'', goarch = ''amd64'',
      environ = [''HOME=/home/u'', ''PATH=/usr/bin''],
      strings_ToLower = ascii_lower,
      trace = []\<rparr>"


text \<open>
  The HEAD response announces five bytes; the GET response has no content length and
  delivers three.
\<close>

definition mismatch_world :: world where
  "mismatch_world =
     release_world\<lparr>
       http_head := (\<lambda>url. if url = example_url
         then Some \<lparr>head_status = 200, head_content_length = 5\<rparr> else None),
       http_get := (\<lambda>url. if url = example_url
         then Some \<lparr>get_status = 200, get_content_length = - 1, get_body = ''abc'',
                    get_body_fails = False\<rparr>
         else None)\<rparr>"

text \<open>
  The installation directory exists, and the system refuses access to the two files that
  \<open>install\<close> looks for in it.
\<close>

definition denied_world :: world where
  "denied_world =
     release_world\<lparr>fs := fs example_world, denied := [example_marker, example_archive]\<rparr>"

subsection \<open>Effects between two worlds\<close>

text \<open>
  From \<open>w\<close> to \<open>w'\<close> the trace has only grown, and by no \<open>os.WriteFile\<close>: the one
  call of \<open>os.WriteFile\<close> in the package is the write of the marker file at the end of
  \<open>install\<close>.
\<close>

definition no_WriteFile :: "world \<Rightarrow> world \<Rightarrow> bool" where
  "no_WriteFile w w' \<longleftrightarrow> (\<exists>evs. trace w' = trace w @ evs \<and> (\<forall>p. EvWriteFile p \<notin> set evs))"

text \<open>Between \<open>w\<close> and \<open>w'\<close> the line \<open>msg\<close> was logged.\<close>

definition logged_since :: "world \<Rightarrow> world \<Rightarrow> string \<Rightarrow> bool" where
  "logged_since w w' msg \<longleftrightarrow> (\<exists>evs. trace w' = trace w @ evs \<and> EvLog msg \<in> set evs)"

subsection \<open>Names for the paths and messages of install\<close>

text \<open>
  The marker file (line 105 and 153), the archive file (lines 124 and 125) and the three
  log lines (106, 149 and 156).
\<close>

definition marker_path :: "string \<Rightarrow> string" where
  "marker_path targetDir = filepath_Join [targetDir, unpackedOkay]"

definition archive_path :: "world \<Rightarrow> string \<Rightarrow> string \<Rightarrow> string" where
  "archive_path w targetDir version =
     filepath_Join [targetDir, path_Base (versionArchiveURL w version)]"

definition already_msg :: "string \<Rightarrow> string \<Rightarrow> string" where
  "already_msg targetDir version = version @ '': already downloaded in '' @ targetDir"

definition unpacking_msg :: "string \<Rightarrow> string" where
  "unpacking_msg archiveFile = ''Unpacking '' @ archiveFile @ '' ...''"

definition success_msg :: "string \<Rightarrow> string" where
  "success_msg version = ''Success. You may now run '' @ [CHR 0x27] @ version @ [CHR 0x27]"

subsection \<open>Cleaned paths\<close>

text \<open>
  A cleaned path is its elements joined by \<open>/\<close>, after \<open>/\<close> when it is rooted. The
  elements of a cleaned path are \<open>normal\<close>: some \<open>..\<close> (none when rooted) followed by
  \<open>plain\<close> names.
\<close>

definition plain :: "string \<Rightarrow> bool" where
  "plain e \<longleftrightarrow> e \<noteq> [] \<and> e \<noteq> ''.'' \<and> e \<noteq> ''..'' \<and> CHR ''/'' \<notin> set e"

definition rooted :: "string \<Rightarrow> bool" where
  "rooted p \<longleftrightarrow> p \<noteq> [] \<and> hd p = CHR ''/''"

definition clean_elems :: "string \<Rightarrow> string list" where
  "clean_elems p = foldl (clean_elem (rooted p)) [] (split_slash p)"

definition render :: "bool \<Rightarrow> string list \<Rightarrow> string" where
  "render r es =
     (if r then CHR ''/'' # join_slash es else if es = [] then ''.'' else join_slash es)"

definition normal :: "bool \<Rightarrow> string list \<Rightarrow> bool" where
  "normal r es \<longleftrightarrow>
     (\<exists>k ps. es = replicate k ''..'' @ ps \<and> (\<forall>e\<in>set ps. plain e) \<and> (r \<longrightarrow> k = 0))"

section \<open>Properties of dedupEnv\<close>

subsection \<open>The loop computes a fold of upsert\<close>

lemma upsert_None: "env_key toLower ci kv = None \<Longrightarrow> upsert toLower ci out kv = out @ [kv]"
  by (induction out) auto

lemma upsert_fresh:
  "\<forall>x\<in>set out. env_key toLower ci x \<noteq> env_key toLower ci kv \<Longrightarrow> upsert toLower ci out kv = out @ [kv]"
  by (induction out) auto

lemma upsert_at:
  "i < length out \<Longrightarrow> env_key toLower ci (out ! i) = env_key toLower ci kv \<Longrightarrow> env_key toLower ci kv \<noteq> None \<Longrightarrow>
   \<forall>j<i. env_key toLower ci (out ! j) \<noteq> env_key toLower ci kv \<Longrightarrow> upsert toLower ci out kv = out[i := kv]"
proof (induction out arbitrary: i)
  case Nil
  then show ?case by simp
next
  case (Cons x xs)
  show ?case
  proof (cases i)
    case 0
    with Cons.prems show ?thesis by simp
  next
    case (Suc n)
    with Cons.prems have x: "env_key toLower ci x \<noteq> env_key toLower ci kv" by auto
    have "upsert toLower ci xs kv = xs[n := kv]"
      using Cons.prems Suc by (intro Cons.IH) auto
    with x Suc show ?thesis by simp
  qed
qed

lemma saw_inv_empty: "saw_inv toLower ci [] Map.empty"
  by (simp add: saw_inv_def)

lemma saw_inv_snoc_None:
  "saw_inv toLower ci out saw \<Longrightarrow> env_key toLower ci kv = None \<Longrightarrow> saw_inv toLower ci (out @ [kv]) saw"
  unfolding saw_inv_def by (auto simp: nth_append less_Suc_eq)

lemma saw_inv_snoc_new:
  "saw_inv toLower ci out saw \<Longrightarrow> env_key toLower ci kv = Some k \<Longrightarrow> saw k = None \<Longrightarrow>
   saw_inv toLower ci (out @ [kv]) (saw(k \<mapsto> length out))"
proof -
  assume inv: "saw_inv toLower ci out saw" and kv: "env_key toLower ci kv = Some k" and nk: "saw k = None"
  have fresh: "\<And>i. i < length out \<Longrightarrow> env_key toLower ci (out ! i) \<noteq> Some k"
  proof
    fix i assume "i < length out" "env_key toLower ci (out ! i) = Some k"
    with inv have "saw k = Some i" unfolding saw_inv_def by blast
    with nk show False by simp
  qed
  show ?thesis
    unfolding saw_inv_def
  proof (intro allI)
    fix k' i
    show "((saw(k \<mapsto> length out)) k' = Some i) =
          (i < length (out @ [kv]) \<and> env_key toLower ci ((out @ [kv]) ! i) = Some k')"
    proof (cases "i < length out")
      case True
      with inv fresh[OF True] show ?thesis
        unfolding saw_inv_def by (auto simp: nth_append)
    next
      case False
      with inv kv show ?thesis
        unfolding saw_inv_def by (auto simp: nth_append less_Suc_eq)
    qed
  qed
qed

lemma saw_inv_update:
  "saw_inv toLower ci out saw \<Longrightarrow> env_key toLower ci kv = Some k \<Longrightarrow> saw k = Some i \<Longrightarrow>
   saw_inv toLower ci (out[i := kv]) saw"
  unfolding saw_inv_def by (auto simp: nth_list_update)

lemma dedupEnv_loop_step:
  "dedupEnv_loop toLower ci (kv # env) out saw =
     (case env_key toLower ci kv of
        None \<Rightarrow> dedupEnv_loop toLower ci env (out @ [kv]) saw
      | Some k \<Rightarrow>
          (case saw k of
             Some dupIdx \<Rightarrow>
               if dupIdx < length out then dedupEnv_loop toLower ci env (out[dupIdx := kv]) saw else None
           | None \<Rightarrow> dedupEnv_loop toLower ci env (out @ [kv]) (saw(k \<mapsto> length out))))"
  by (simp add: env_key_def Let_def)

lemma dedupEnv_loop_foldl:
  "saw_inv toLower ci out saw \<Longrightarrow> dedupEnv_loop toLower ci env out saw = Some (foldl (upsert toLower ci) out env)"
proof (induction env arbitrary: out saw)
  case Nil
  then show ?case by simp
next
  case (Cons kv env)
  show ?case
  proof (cases "env_key toLower ci kv")
    case None
    with Cons show ?thesis
      by (simp only: dedupEnv_loop_step) (simp add: upsert_None saw_inv_snoc_None)
  next
    case (Some k)
    show ?thesis
    proof (cases "saw k")
      case None
      have "\<forall>x\<in>set out. env_key toLower ci x \<noteq> env_key toLower ci kv"
        using Cons.prems None Some unfolding saw_inv_def
        by (metis in_set_conv_nth option.distinct(1))
      then have "upsert toLower ci out kv = out @ [kv]" by (rule upsert_fresh)
      moreover have "saw_inv toLower ci (out @ [kv]) (saw(k \<mapsto> length out))"
        using Cons.prems Some None by (rule saw_inv_snoc_new)
      then have "dedupEnv_loop toLower ci env (out @ [kv]) (saw(k \<mapsto> length out)) =
                 Some (foldl (upsert toLower ci) (out @ [kv]) env)"
        by (rule Cons.IH)
      ultimately show ?thesis using None Some
        by (simp only: dedupEnv_loop_step) simp
    next
      case (Some i)
      have i: "i < length out" "env_key toLower ci (out ! i) = Some k"
        using Cons.prems Some unfolding saw_inv_def by auto
      have "\<forall>j<i. env_key toLower ci (out ! j) \<noteq> env_key toLower ci kv"
        using Cons.prems Some \<open>env_key toLower ci kv = Some k\<close> i unfolding saw_inv_def
        by (metis less_irrefl option.inject order_less_trans)
      then have "upsert toLower ci out kv = out[i := kv]"
        using i \<open>env_key toLower ci kv = Some k\<close> by (intro upsert_at) auto
      moreover have "saw_inv toLower ci (out[i := kv]) saw"
        using Cons.prems \<open>env_key toLower ci kv = Some k\<close> Some by (rule saw_inv_update)
      then have "dedupEnv_loop toLower ci env (out[i := kv]) saw =
                 Some (foldl (upsert toLower ci) (out[i := kv]) env)"
        by (rule Cons.IH)
      ultimately show ?thesis using Some i \<open>env_key toLower ci kv = Some k\<close>
        by (simp only: dedupEnv_loop_step) simp
    qed
  qed
qed

lemma dedupEnv_foldl: "dedupEnv toLower ci env = Some (foldl (upsert toLower ci) [] env)"
  by (simp add: dedupEnv_def dedupEnv_loop_foldl saw_inv_empty)


lemma filter_upsert_None:
  "filter (\<lambda>x. env_key toLower ci x = None) (upsert toLower ci out kv) =
   filter (\<lambda>x. env_key toLower ci x = None) out @ (if env_key toLower ci kv = None then [kv] else [])"
  by (induction out) auto

lemma filter_upsert_Some:
  "length (filter (\<lambda>x. env_key toLower ci x = Some k) out) \<le> 1 \<Longrightarrow>
   filter (\<lambda>x. env_key toLower ci x = Some k) (upsert toLower ci out kv) =
     (if env_key toLower ci kv = Some k then [kv] else filter (\<lambda>x. env_key toLower ci x = Some k) out)"
  by (induction out) (auto split: if_splits)

lemma foldl_upsert_keyed:
  "filter (\<lambda>x. env_key toLower ci x = Some k) (foldl (upsert toLower ci) [] env) =
     (if filter (\<lambda>x. env_key toLower ci x = Some k) env = [] then []
      else [last (filter (\<lambda>x. env_key toLower ci x = Some k) env)])"
proof (induction env rule: rev_induct)
  case Nil
  then show ?case by simp
next
  case (snoc kv env)
  then have "length (filter (\<lambda>x. env_key toLower ci x = Some k) (foldl (upsert toLower ci) [] env)) \<le> 1"
    by simp
  then show ?case
    using snoc by (simp add: filter_upsert_Some)
qed

lemma foldl_upsert_malformed:
  "filter (\<lambda>x. env_key toLower ci x = None) (foldl (upsert toLower ci) [] env) =
   filter (\<lambda>x. env_key toLower ci x = None) env"
  by (induction env rule: rev_induct) (simp_all add: filter_upsert_None)

lemma first_occurrences_snoc:
  "first_occurrences toLower ci seen (env @ [kv]) =
   first_occurrences toLower ci seen env @
     (case env_key toLower ci kv of
        None \<Rightarrow> [kv]
      | Some k \<Rightarrow> if k \<in> set seen \<or> (\<exists>x\<in>set env. env_key toLower ci x = Some k) then [] else [kv])"
  by (induction env arbitrary: seen) (auto split: option.splits)

lemma first_occurrences_subset:
  "x \<in> set (first_occurrences toLower ci seen env) \<Longrightarrow> x \<in> set env"
  by (induction env arbitrary: seen) (auto split: option.splits if_splits)

lemma first_occurrences_seen:
  "x \<in> set (first_occurrences toLower ci seen env) \<Longrightarrow> env_key toLower ci x = Some k \<Longrightarrow> k \<notin> set seen"
proof (induction env arbitrary: seen)
  case Nil
  then show ?case by simp
next
  case (Cons kv env)
  show ?case
  proof (cases "env_key toLower ci kv")
    case None
    with Cons show ?thesis by auto
  next
    case (Some k')
    show ?thesis
    proof (cases "k' \<in> set seen")
      case True
      with Some Cons show ?thesis by auto
    next
      case False
      with Some Cons.prems have "x = kv \<or> x \<in> set (first_occurrences toLower ci (k' # seen) env)"
        by auto
      then show ?thesis
      proof
        assume "x = kv"
        with Some Cons.prems False show ?thesis by auto
      next
        assume "x \<in> set (first_occurrences toLower ci (k' # seen) env)"
        then have "k \<notin> set (k' # seen)" using Cons.prems(2) by (rule Cons.IH)
        then show ?thesis by simp
      qed
    qed
  qed
qed

lemma first_occurrences_unique:
  "length (filter (\<lambda>x. env_key toLower ci x = Some k) (first_occurrences toLower ci seen env)) \<le> 1"
proof (induction env arbitrary: seen)
  case Nil
  then show ?case by simp
next
  case (Cons kv env)
  show ?case
  proof (cases "env_key toLower ci kv = Some k \<and> k \<notin> set seen")
    case True
    have "filter (\<lambda>x. env_key toLower ci x = Some k) (first_occurrences toLower ci (k # seen) env) = []"
      by (auto simp: filter_empty_conv dest: first_occurrences_seen)
    with True show ?thesis by simp
  next
    case False
    then show ?thesis using Cons.IH by (auto split: option.splits)
  qed
qed

lemma first_occurrences_covers:
  "\<exists>x\<in>set env. env_key toLower ci x = Some k \<Longrightarrow> k \<notin> set seen \<Longrightarrow>
   \<exists>x\<in>set (first_occurrences toLower ci seen env). env_key toLower ci x = Some k"
proof (induction env arbitrary: seen)
  case Nil
  then show ?case by simp
next
  case (Cons kv env)
  show ?case
  proof (cases "env_key toLower ci kv")
    case None
    with Cons.prems have "\<exists>x\<in>set env. env_key toLower ci x = Some k" by auto
    then have "\<exists>x\<in>set (first_occurrences toLower ci seen env). env_key toLower ci x = Some k"
      using Cons.prems(2) by (rule Cons.IH)
    with None show ?thesis by auto
  next
    case (Some k')
    show ?thesis
    proof (cases "k' = k")
      case True
      with Some Cons.prems show ?thesis by auto
    next
      case False
      with Some Cons.prems have ex: "\<exists>x\<in>set env. env_key toLower ci x = Some k" by auto
      show ?thesis
      proof (cases "k' \<in> set seen")
        case True
        from ex Cons.prems(2)
        have "\<exists>x\<in>set (first_occurrences toLower ci seen env). env_key toLower ci x = Some k"
          by (rule Cons.IH)
        with Some True show ?thesis by auto
      next
        case notin: False
        from False Cons.prems(2) have "k \<notin> set (k' # seen)" by auto
        with ex have "\<exists>x\<in>set (first_occurrences toLower ci (k' # seen) env). env_key toLower ci x = Some k"
          by (rule Cons.IH)
        with Some notin show ?thesis by auto
      qed
    qed
  qed
qed

lemma env_key_last_occurrence: "env_key toLower ci (last_occurrence toLower ci env x) = env_key toLower ci x"
proof (cases "env_key toLower ci x")
  case None
  then show ?thesis by (simp add: last_occurrence_def)
next
  case (Some k)
  have "last (x # filter (\<lambda>y. env_key toLower ci y = Some k) env)
          \<in> set (x # filter (\<lambda>y. env_key toLower ci y = Some k) env)"
    by (rule last_in_set) simp
  with Some show ?thesis by (auto simp: last_occurrence_def)
qed

lemma last_occurrence_snoc:
  "last_occurrence toLower ci (env @ [kv]) x =
     (if env_key toLower ci x \<noteq> None \<and> env_key toLower ci x = env_key toLower ci kv then kv
      else last_occurrence toLower ci env x)"
  by (cases "env_key toLower ci x") (auto simp: last_occurrence_def)

lemma upsert_map:
  "\<forall>x\<in>set ents. env_key toLower ci (f x) = env_key toLower ci x \<Longrightarrow> env_key toLower ci kv = Some k \<Longrightarrow>
   \<exists>x\<in>set ents. env_key toLower ci x = Some k \<Longrightarrow>
   length (filter (\<lambda>x. env_key toLower ci x = Some k) ents) \<le> 1 \<Longrightarrow>
   upsert toLower ci (map f ents) kv = map (\<lambda>x. if env_key toLower ci x = Some k then kv else f x) ents"
proof (induction ents)
  case Nil
  then show ?case by simp
next
  case (Cons y ents)
  show ?case
  proof (cases "env_key toLower ci y = Some k")
    case True
    with Cons.prems have "filter (\<lambda>x. env_key toLower ci x = Some k) ents = []" by simp
    then have "\<forall>x\<in>set ents. env_key toLower ci x \<noteq> Some k" by (simp add: filter_empty_conv)
    then have "map (\<lambda>x. if env_key toLower ci x = Some k then kv else f x) ents = map f ents" by simp
    with True Cons.prems show ?thesis by simp
  next
    case False
    with Cons.prems have "upsert toLower ci (map f ents) kv =
        map (\<lambda>x. if env_key toLower ci x = Some k then kv else f x) ents"
      by (intro Cons.IH) auto
    with False Cons.prems show ?thesis by simp
  qed
qed

lemma foldl_upsert_closed_form:
  "foldl (upsert toLower ci) [] env = map (last_occurrence toLower ci env) (first_occurrences toLower ci [] env)"
proof (induction env rule: rev_induct)
  case Nil
  then show ?case by simp
next
  case (snoc kv env)
  let ?firsts = "first_occurrences toLower ci [] env"
  show ?case
  proof (cases "env_key toLower ci kv")
    case None
    then have "map (last_occurrence toLower ci (env @ [kv])) ?firsts = map (last_occurrence toLower ci env) ?firsts"
      by (auto simp: last_occurrence_snoc)
    moreover have "last_occurrence toLower ci (env @ [kv]) kv = kv"
      using None by (simp add: last_occurrence_def)
    ultimately show ?thesis
      using snoc None by (simp add: upsert_None first_occurrences_snoc)
  next
    case (Some k)
    show ?thesis
    proof (cases "\<exists>x\<in>set env. env_key toLower ci x = Some k")
      case False
      have "\<forall>x\<in>set (map (last_occurrence toLower ci env) ?firsts). env_key toLower ci x \<noteq> env_key toLower ci kv"
        using False Some by (auto simp: env_key_last_occurrence dest: first_occurrences_subset)
      then have "upsert toLower ci (map (last_occurrence toLower ci env) ?firsts) kv =
                 map (last_occurrence toLower ci env) ?firsts @ [kv]"
        by (rule upsert_fresh)
      moreover have "map (last_occurrence toLower ci (env @ [kv])) ?firsts = map (last_occurrence toLower ci env) ?firsts"
        using False Some
        by (auto simp: last_occurrence_snoc dest: first_occurrences_subset)
      moreover have "last_occurrence toLower ci (env @ [kv]) kv = kv"
        using Some by (simp add: last_occurrence_snoc)
      ultimately show ?thesis
        using snoc False Some by (simp add: first_occurrences_snoc)
    next
      case True
      have "upsert toLower ci (map (last_occurrence toLower ci env) ?firsts) kv =
            map (\<lambda>x. if env_key toLower ci x = Some k then kv else last_occurrence toLower ci env x) ?firsts"
      proof (rule upsert_map)
        show "\<forall>x\<in>set ?firsts. env_key toLower ci (last_occurrence toLower ci env x) = env_key toLower ci x"
          by (simp add: env_key_last_occurrence)
        show "env_key toLower ci kv = Some k" by (rule Some)
        show "\<exists>x\<in>set ?firsts. env_key toLower ci x = Some k"
          using True by (rule first_occurrences_covers) simp
        show "length (filter (\<lambda>x. env_key toLower ci x = Some k) ?firsts) \<le> 1"
          by (rule first_occurrences_unique)
      qed
      moreover have "map (last_occurrence toLower ci (env @ [kv])) ?firsts =
            map (\<lambda>x. if env_key toLower ci x = Some k then kv else last_occurrence toLower ci env x) ?firsts"
        using Some by (auto simp: last_occurrence_snoc)
      ultimately show ?thesis
        using snoc True Some by (simp add: first_occurrences_snoc)
    qed
  qed
qed

subsection \<open>Claims about dedupEnv and runGo\<close>

text \<open>
  Claim C6. For every environment list and case-insensitivity flag, \<open>dedupEnv\<close> returns
  (it never panics), and its output holds exactly one entry for every key of the input
  (keys folded by \<open>strings.ToLower\<close> when the flag is set), namely the last input entry
  with that key, and no entry for any other key. The entries with no \<open>=\<close> after their
  first character are the same in the output as in the input, in the same order and
  number: they pass through unchanged and are never merged. Nothing is assumed about
  \<open>strings.ToLower\<close>: the statement holds for every function \<open>toLower\<close> in its place.
\<close>

theorem dedupEnv_one_entry_per_key:
  "\<exists>out. dedupEnv toLower ci env = Some out \<and>
     filter (\<lambda>x. env_key toLower ci x = None) out = filter (\<lambda>x. env_key toLower ci x = None) env \<and>
     (\<forall>k. filter (\<lambda>x. env_key toLower ci x = Some k) out =
          (if \<exists>kv\<in>set env. env_key toLower ci kv = Some k
           then [last (filter (\<lambda>x. env_key toLower ci x = Some k) env)] else []))"
proof -
  have "\<And>k. (filter (\<lambda>x. env_key toLower ci x = Some k) env = []) =
            (\<not> (\<exists>kv\<in>set env. env_key toLower ci kv = Some k))"
    by (auto simp: filter_empty_conv)
  then show ?thesis
    by (simp add: dedupEnv_foldl foldl_upsert_malformed foldl_upsert_keyed)
qed

theorem dedupEnv_one_entry_per_key_witness:
  "\<exists>out. dedupEnv ascii_lower True [''Foo=1'', ''bar'', ''FOO=2'', ''=x'', ''bar''] = Some out \<and>
     filter (\<lambda>x. env_key ascii_lower True x = None) out = [''bar'', ''=x'', ''bar''] \<and>
     filter (\<lambda>x. env_key ascii_lower True x = Some ''foo'') out = [''FOO=2''] \<and>
     filter (\<lambda>x. env_key ascii_lower True x = Some ''FOO'') out = []"
proof -
  let ?env = "[''Foo=1'', ''bar'', ''FOO=2'', ''=x'', ''bar'']"
  obtain out where out: "dedupEnv ascii_lower True ?env = Some out"
    and malformed: "filter (\<lambda>x. env_key ascii_lower True x = None) out =
                    filter (\<lambda>x. env_key ascii_lower True x = None) ?env"
    and keyed: "\<And>k. filter (\<lambda>x. env_key ascii_lower True x = Some k) out =
          (if \<exists>kv\<in>set ?env. env_key ascii_lower True kv = Some k
           then [last (filter (\<lambda>x. env_key ascii_lower True x = Some k) ?env)] else [])"
    using dedupEnv_one_entry_per_key [of ascii_lower True ?env] by blast
  have "filter (\<lambda>x. env_key ascii_lower True x = None) out = [''bar'', ''=x'', ''bar'']"
    using malformed by (simp add: env_key_def ascii_lower_def lower_char_def)
  moreover have "filter (\<lambda>x. env_key ascii_lower True x = Some ''foo'') out = [''FOO=2'']"
    using keyed [of "''foo''"] by (simp add: env_key_def ascii_lower_def lower_char_def)
  moreover have "filter (\<lambda>x. env_key ascii_lower True x = Some ''FOO'') out = []"
    using keyed [of "''FOO''"] by (simp add: env_key_def ascii_lower_def lower_char_def)
  ultimately show ?thesis using out by blast
qed

text \<open>
  Claim C8. \<open>dedupEnv\<close> preserves order. Its output is the list of the first occurrences
  of the input (every entry without a key, and for each key the first entry that has it),
  in input order, where each first occurrence is replaced, at its own position, by the last
  input entry with the same key. So a later duplicate takes the place of the first
  occurrence instead of being appended, and an entry whose key occurs once is unchanged.
  The statement holds for every function \<open>toLower\<close> in the place of \<open>strings.ToLower\<close>.
\<close>

theorem dedupEnv_first_position_last_value:
  "dedupEnv toLower ci env =
     Some (map (last_occurrence toLower ci env) (first_occurrences toLower ci [] env))"
  by (simp add: dedupEnv_foldl foldl_upsert_closed_form)

theorem dedupEnv_first_position_last_value_witness:
  "first_occurrences ascii_lower False [] [''A=1'', ''B=1'', ''junk'', ''A=2'', ''C=1'', ''B=2''] =
     [''A=1'', ''B=1'', ''junk'', ''C=1''] \<and>
   dedupEnv ascii_lower False [''A=1'', ''B=1'', ''junk'', ''A=2'', ''C=1'', ''B=2''] =
     Some [''A=2'', ''B=2'', ''junk'', ''C=1'']"
  using dedupEnv_first_position_last_value
          [of ascii_lower False "[''A=1'', ''B=1'', ''junk'', ''A=2'', ''C=1'', ''B=2'']"]
  by (simp add: env_key_def last_occurrence_def)

text \<open>
  Claim C10. In the environment that \<open>runGo\<close> gives the child there is exactly one entry
  with the key of \<open>PATH\<close> (whatever \<open>strings.ToLower\<close> is). When the inherited \<open>PATH\<close> is empty or unset (\<open>os.Getenv\<close> returns
  the empty string for both) it is \<open>PATH=\<close> followed by the \<open>bin\<close> directory of the
  installation and nothing else; otherwise it is \<open>PATH=\<close>, the \<open>bin\<close> directory, the
  list separator and the inherited value.
\<close>

theorem runGo_PATH_entry:
  "\<exists>c. runGo_command w root args = Some c \<and>
     filter (\<lambda>kv. env_key (strings_ToLower w) (caseInsensitiveEnv w) kv =
                  env_key (strings_ToLower w) (caseInsensitiveEnv w) ''PATH='')
       (cmd_Env c) =
     [''PATH='' @ filepath_Join [root, ''bin''] @
        (if os_Getenv w ''PATH'' = [] then []
         else filepath_ListSeparator w # os_Getenv w ''PATH'')]"
proof -
  define ci where "ci = caseInsensitiveEnv w"
  define toLower where "toLower = strings_ToLower w"
  define k where "k = (if ci then toLower ''PATH'' else ''PATH'')"
  define newPath where "newPath = filepath_Join [root, ''bin''] @
        (if os_Getenv w ''PATH'' = [] then []
         else filepath_ListSeparator w # os_Getenv w ''PATH'')"
  define env where "env = environ w @ [''GOROOT='' @ root, ''PATH='' @ newPath]"
  define out where "out = foldl (upsert toLower ci) [] env"
  have key: "env_key toLower ci (''PATH='' @ v) = Some k" for v
    by (simp add: k_def env_key_def)
  have "filter (\<lambda>x. env_key toLower ci x = Some k) env =
        filter (\<lambda>x. env_key toLower ci x = Some k) (environ w @ [''GOROOT='' @ root]) @
          [''PATH='' @ newPath]"
    unfolding env_def using key [of newPath] by simp
  then have keyed: "filter (\<lambda>x. env_key toLower ci x = Some k) out = [''PATH='' @ newPath]"
    unfolding out_def by (simp only: foldl_upsert_keyed) simp
  have path: "env_key toLower ci ''PATH='' = Some k"
    using key [of "[]"] by simp
  have "dedupEnv toLower ci env = Some out"
    unfolding out_def by (rule dedupEnv_foldl)
  moreover have "runGo_command w root args =
      (case dedupEnv toLower ci env of
         None \<Rightarrow> None
       | Some e \<Rightarrow> Some \<lparr>cmd_Path = filepath_Join [root, ''bin'', ''go'' @ exe w],
                          cmd_Args = args, cmd_Env = e\<rparr>)"
    unfolding env_def newPath_def ci_def toLower_def
    by (cases "os_Getenv w ''PATH'' = []") (simp_all add: runGo_command_def Let_def split: option.split)
  ultimately have "runGo_command w root args =
      Some \<lparr>cmd_Path = filepath_Join [root, ''bin'', ''go'' @ exe w],
            cmd_Args = args, cmd_Env = out\<rparr>"
    by simp
  with keyed path show ?thesis
    unfolding ci_def [symmetric] toLower_def [symmetric] newPath_def [symmetric] by simp
qed

theorem runGo_PATH_entry_witness:
  "\<exists>c. runGo_command
          \<lparr>fs = Map.empty, denied = [], remove_denied = [], close_fails = [],
           file_limit = None, http_head = (\<lambda>_. None),
           http_get = (\<lambda>_. None), gunzip_untar = (\<lambda>_. None), unzip = (\<lambda>_. None),
           goos = ''linux'', goarch = ''amd64'',
           environ = [''HOME=/home/u'', ''PATH=/usr/bin'', ''GOROOT=/old''],
           strings_ToLower = ascii_lower, trace = []\<rparr>
          ''/home/u/sdk/go1.21.0'' [''version''] = Some c \<and>
       cmd_Env c = [''HOME=/home/u'', ''PATH=/home/u/sdk/go1.21.0/bin:/usr/bin'',
                    ''GOROOT=/home/u/sdk/go1.21.0'']"
  using runGo_PATH_entry
          [of "\<lparr>fs = Map.empty, denied = [], remove_denied = [], close_fails = [],
           file_limit = None, http_head = (\<lambda>_. None),
           http_get = (\<lambda>_. None), gunzip_untar = (\<lambda>_. None), unzip = (\<lambda>_. None),
           goos = ''linux'', goarch = ''amd64'',
           environ = [''HOME=/home/u'', ''PATH=/usr/bin'', ''GOROOT=/old''],
           strings_ToLower = ascii_lower, trace = []\<rparr>"
              "''/home/u/sdk/go1.21.0''" "[''version'']"]
  by (simp add: runGo_command_def dedupEnv_def os_Getenv_def caseInsensitiveEnv_def exe_def
        filepath_ListSeparator_def filepath_Join_def filepath_Clean_def clean_elem_def Let_def)

text \<open>
  Claim C7. After the child has ended, the code \<open>runGo\<close> exits with is: the child's own
  exit code when it exited with one (0 when it succeeded); 1 when it could not be run; and
  the non-zero value -1, which \<open>ExitCode()\<close> reports for a process that did not exit by
  itself, when it was ended by a signal.
\<close>

theorem runGo_exit_code:
  "runGo_exit (cmd_Run (Exited code)) = int code \<and>
   runGo_exit (cmd_Run (Exited 0)) = 0 \<and>
   runGo_exit (cmd_Run NotStarted) = 1 \<and>
   runGo_exit (cmd_Run (Signaled sig)) = - 1"
  by (simp add: runGo_exit_def cmd_Run_def)

section \<open>Properties of the file system calls\<close>

lemma open_trunc_Inr:
  "open_trunc c w = Inr w1 \<Longrightarrow>
   c \<notin> set (denied w) \<and> c \<noteq> ''/'' \<and> c \<noteq> ''.'' \<and> w1 = w\<lparr>fs := (fs w)(c \<mapsto> File [])\<rparr>"
  by (auto simp: open_trunc_def node_at_def split: if_splits option.splits node.splits)

lemma os_Create_Inr:
  "os_Create p w = (Inr f, w1) \<Longrightarrow>
   f = filepath_Clean p \<and> f \<notin> set (denied w) \<and> f \<noteq> ''/'' \<and> f \<noteq> ''.'' \<and>
   w1 = emit (EvCreate f) (w\<lparr>fs := (fs w)(f \<mapsto> File [])\<rparr>)"
  by (auto simp: os_Create_def Let_def split: sum.splits dest: open_trunc_Inr)

lemma os_Create_Inl: "os_Create p w = (Inl e, w1) \<Longrightarrow> w1 = w"
  by (auto simp: os_Create_def Let_def split: sum.splits)

lemma os_OpenFile_Inr:
  "os_OpenFile p w = (Inr f, w1) \<Longrightarrow>
   f = filepath_Clean p \<and> f \<notin> set (denied w) \<and> f \<noteq> ''/'' \<and> f \<noteq> ''.'' \<and>
   w1 = emit (EvOpenFile f) (w\<lparr>fs := (fs w)(f \<mapsto> File [])\<rparr>)"
  by (auto simp: os_OpenFile_def Let_def split: sum.splits dest: open_trunc_Inr)

lemma os_OpenFile_Inl: "os_OpenFile p w = (Inl e, w1) \<Longrightarrow> w1 = w"
  by (auto simp: os_OpenFile_def Let_def split: sum.splits)

text \<open>
  \<open>os.WriteFile\<close> with no data: when it returns an error, either nothing was done (the
  file could not be opened) or the empty file is there and closing it failed.
\<close>

lemma os_WriteFile_empty:
  "os_WriteFile p [] w = (r, w1) \<Longrightarrow>
   (w1 = w \<and> (\<exists>e. r = Inl (PathError ''open'' p e))) \<or>
   (filepath_Clean p \<notin> set (denied w) \<and>
    w1 = emit (EvWriteFile (filepath_Clean p))
           (w\<lparr>fs := (fs w)(filepath_Clean p \<mapsto> File [])\<rparr>) \<and>
    (if filepath_Clean p \<in> set (close_fails w)
     then r = Inl (PathError ''close'' (filepath_Clean p) EIO) else r = Inr ()))"
  by (auto simp: os_WriteFile_def Let_def file_Write_def file_Close_def emit_def
      split: sum.splits option.splits if_splits dest!: open_trunc_Inr)

lemma os_WriteFile_empty_Inr:
  "os_WriteFile p [] w = (Inr u, w1) \<Longrightarrow>
   filepath_Clean p \<notin> set (denied w) \<and> filepath_Clean p \<notin> set (close_fails w) \<and>
   w1 = emit (EvWriteFile (filepath_Clean p)) (w\<lparr>fs := (fs w)(filepath_Clean p \<mapsto> File [])\<rparr>)"
  by (drule os_WriteFile_empty) (auto split: if_splits)

lemma os_MkdirAll_Inl: "os_MkdirAll p w = (Inl e, w1) \<Longrightarrow> w1 = w"
  by (auto simp: os_MkdirAll_def Let_def split: if_splits)

lemma os_MkdirAll_Inr:
  "os_MkdirAll p w = (Inr u, w1) \<Longrightarrow>
   w1 = emit (EvMkdirAll (filepath_Clean p))
          (w\<lparr>fs := foldl (\<lambda>m a. m(a \<mapsto> Dir)) (fs w) (path_chain (filepath_Clean p))\<rparr>)"
  by (auto simp: os_MkdirAll_def Let_def split: if_splits)

section \<open>Properties of copyFromURL\<close>

lemma file_Close_case:
  "(case file_Close f w of (Some err, w4) \<Rightarrow> A err w4 | (None, w4) \<Rightarrow> B w4) =
     (if f \<in> set (close_fails w) then A (PathError ''close'' f EIO) w else B w)"
  by (simp add: file_Close_def)

lemma copyFromURL_failed_after_create:
  assumes "fs w c = Some (File data)" "c \<notin> set (denied w)" "c \<noteq> ''/''" "c \<noteq> ''.''"
    and "c = filepath_Clean dstFile"
  shows "copyFromURL_failed c dstFile err w =
           (Inl err, if c \<in> set (remove_denied w) then w
                     else emit (EvRemove c) (w\<lparr>fs := (fs w)(c := None)\<rparr>))"
  using assms
  by (simp add: copyFromURL_failed_def file_Close_def os_Remove_def node_at_def Let_def)

lemma copyFromURL_after_create:
  assumes "os_Create dstFile w = (Inr f, w1)"
    and "copyFromURL dstFile srcURL w = (r, w')"
  shows "(\<forall>err. r = Inl err \<longrightarrow>
            (if filepath_Clean dstFile \<in> set (remove_denied w)
             then \<exists>data. prefix data (case http_get w srcURL of None \<Rightarrow> []
                                         | Some res \<Rightarrow> get_body res) \<and>
                    fs w' = (fs w)(filepath_Clean dstFile \<mapsto> File data) \<and>
                    trace w' = trace w @ [EvCreate (filepath_Clean dstFile), EvGet srcURL]
             else fs w' = (fs w)(filepath_Clean dstFile := None) \<and>
                  trace w' = trace w @ [EvCreate (filepath_Clean dstFile), EvGet srcURL,
                                        EvRemove (filepath_Clean dstFile)])) \<and>
         (r = Inr () \<longrightarrow>
            (\<exists>res. http_get w srcURL = Some res \<and> get_status res = 200 \<and>
                   \<not> get_body_fails res \<and>
                   (get_content_length res = - 1 \<or>
                    get_content_length res = int (length (get_body res))) \<and>
                   filepath_Clean dstFile \<notin> set (close_fails w) \<and>
                   fs w' = (fs w)(filepath_Clean dstFile \<mapsto> File (get_body res)) \<and>
                   trace w' = trace w @ [EvCreate (filepath_Clean dstFile), EvGet srcURL]))"
proof -
  let ?c = "filepath_Clean dstFile"
  let ?body = "case http_get w srcURL of None \<Rightarrow> [] | Some res \<Rightarrow> get_body res"
  from assms(1) have f: "f = ?c" and nd: "?c \<notin> set (denied w)"
    and nr: "?c \<noteq> ''/''" "?c \<noteq> ''.''"
    and w1: "w1 = emit (EvCreate ?c) (w\<lparr>fs := (fs w)(?c \<mapsto> File [])\<rparr>)"
    by (auto dest: os_Create_Inr)
  define w2 where "w2 = emit (EvGet srcURL) w1"
  have fs2: "fs w2 ?c = Some (File [])" and den2: "denied w2 = denied w"
    and rden2: "remove_denied w2 = remove_denied w"
    and cl2: "close_fails w2 = close_fails w"
    and tr2: "trace w2 = trace w @ [EvCreate ?c, EvGet srcURL]"
    and fsw2: "fs w2 = (fs w)(?c \<mapsto> File [])" and lim2: "file_limit w2 = file_limit w"
    by (simp_all add: w2_def w1 emit_def)
  have fail2: "copyFromURL_failed ?c dstFile e w2 =
                 (Inl e, if ?c \<in> set (remove_denied w) then w2
                         else emit (EvRemove ?c) (w2\<lparr>fs := (fs w2)(?c := None)\<rparr>))" for e
    using copyFromURL_failed_after_create [of w2 ?c "[]" dstFile e] fs2 nd nr den2 rden2
    by simp
  have eq: "copyFromURL dstFile srcURL w =
      (case http_get w srcURL of
         None \<Rightarrow> copyFromURL_failed ?c dstFile (TransportError srcURL) w2
       | Some res \<Rightarrow>
          if get_status res \<noteq> 200
          then copyFromURL_failed ?c dstFile (StatusError (get_status res)) w2
          else
            (case io_Copy ?c (get_body res) (get_body_fails res) w2 of
               ((n, Some err), w3) \<Rightarrow> copyFromURL_failed ?c dstFile err w3
             | ((n, None), w3) \<Rightarrow>
                if get_content_length res \<noteq> - 1 \<and> get_content_length res \<noteq> n
                then copyFromURL_failed ?c dstFile
                       (CopiedExpected n (get_content_length res)) w3
                else if ?c \<in> set (close_fails w3)
                then copyFromURL_failed ?c dstFile (PathError ''close'' ?c EIO) w3
                else (Inr (), w3)))"
    using assms(1) unfolding f w2_def
    by (simp add: copyFromURL_def Let_def file_Close_case
          cong: option.case_cong prod.case_cong if_cong)
  have failed: ?thesis
    if "copyFromURL dstFile srcURL w =
          (Inl e, if ?c \<in> set (remove_denied w) then wx
                  else emit (EvRemove ?c) (wx\<lparr>fs := (fs wx)(?c := None)\<rparr>))"
      and "fs wx = (fs w)(?c \<mapsto> File d)" and "prefix d ?body"
      and "trace wx = trace w @ [EvCreate ?c, EvGet srcURL]" for e wx d
  proof (cases "?c \<in> set (remove_denied w)")
    case True
    with that(1) assms(2) have "r = Inl e" and "w' = wx" by simp_all
    with that(2,3,4) True show ?thesis by auto
  next
    case False
    with that(1) assms(2) have "r = Inl e"
      and "w' = emit (EvRemove ?c) (wx\<lparr>fs := (fs wx)(?c := None)\<rparr>)"
      by simp_all
    with that(2,4) False show ?thesis by (simp add: emit_def)
  qed
  show ?thesis
  proof (cases "http_get w srcURL")
    case None
    show ?thesis
    proof (rule failed)
      show "copyFromURL dstFile srcURL w =
          (Inl (TransportError srcURL),
           if ?c \<in> set (remove_denied w) then w2
           else emit (EvRemove ?c) (w2\<lparr>fs := (fs w2)(?c := None)\<rparr>))"
        using eq None fail2 by simp
      show "fs w2 = (fs w)(?c \<mapsto> File [])" by (rule fsw2)
    qed (simp_all add: tr2)
  next
    case (Some res)
    show ?thesis
    proof (cases "get_status res = 200")
      case False
      show ?thesis
      proof (rule failed)
        show "copyFromURL dstFile srcURL w =
          (Inl (StatusError (get_status res)),
           if ?c \<in> set (remove_denied w) then w2
           else emit (EvRemove ?c) (w2\<lparr>fs := (fs w2)(?c := None)\<rparr>))"
          using eq Some False fail2 by simp
        show "fs w2 = (fs w)(?c \<mapsto> File [])" by (rule fsw2)
      qed (simp_all add: tr2)
    next
      case True
      obtain n cerr w3 where
        cp: "io_Copy ?c (get_body res) (get_body_fails res) w2 = ((n, cerr), w3)"
        by (metis prod.collapse)
      define written where
        "written = take (case file_limit w of None \<Rightarrow> length (get_body res) | Some m \<Rightarrow> m)
                     (get_body res)"
      from cp have w3: "w3 = w2\<lparr>fs := (fs w2)(?c \<mapsto> File written)\<rparr>"
        and n: "n = int (length written)"
        and cerr: "cerr = None \<longleftrightarrow>
                    (length written = length (get_body res) \<and> \<not> get_body_fails res)"
        by (auto simp: io_Copy_def file_Write_def fs2 lim2 written_def Let_def
            split: option.splits if_splits)
      have fail3: "copyFromURL_failed ?c dstFile e w3 =
                 (Inl e, if ?c \<in> set (remove_denied w) then w3
                         else emit (EvRemove ?c) (w3\<lparr>fs := (fs w3)(?c := None)\<rparr>))" for e
        using copyFromURL_failed_after_create [of w3 ?c written dstFile e] nd nr den2 rden2
        by (simp add: w3)
      have fs3: "fs w3 = (fs w)(?c \<mapsto> File written)"
        by (simp add: w3 fsw2)
      have pre3: "prefix written ?body"
        using \<open>http_get w srcURL = Some res\<close> by (simp add: written_def take_is_prefix)
      have tr3: "trace w3 = trace w @ [EvCreate ?c, EvGet srcURL]"
        by (simp add: w3 tr2)
      have cl3: "close_fails w3 = close_fails w"
        by (simp add: w3 cl2)
      show ?thesis
      proof (cases cerr)
        case (Some e)
        show ?thesis
        proof (rule failed)
          show "copyFromURL dstFile srcURL w =
            (Inl e, if ?c \<in> set (remove_denied w) then w3
                    else emit (EvRemove ?c) (w3\<lparr>fs := (fs w3)(?c := None)\<rparr>))"
            using eq \<open>http_get w srcURL = Some res\<close> True cp Some fail3 by simp
        qed (rule fs3, rule pre3, rule tr3)
      next
        case None
        with cerr have full: "length written = length (get_body res)" "\<not> get_body_fails res"
          by auto
        then have written: "written = get_body res"
          by (simp add: written_def split: option.splits)
        show ?thesis
        proof (cases "get_content_length res \<noteq> - 1 \<and> get_content_length res \<noteq> n")
          case mismatch: True
          show ?thesis
          proof (rule failed)
            show "copyFromURL dstFile srcURL w =
              (Inl (CopiedExpected n (get_content_length res)),
               if ?c \<in> set (remove_denied w) then w3
               else emit (EvRemove ?c) (w3\<lparr>fs := (fs w3)(?c := None)\<rparr>))"
              using eq \<open>http_get w srcURL = Some res\<close> True cp None mismatch fail3 by simp
          qed (rule fs3, rule pre3, rule tr3)
        next
          case False
          show ?thesis
          proof (cases "?c \<in> set (close_fails w)")
            case closing: True
            show ?thesis
            proof (rule failed)
              show "copyFromURL dstFile srcURL w =
                (Inl (PathError ''close'' ?c EIO),
                 if ?c \<in> set (remove_denied w) then w3
                 else emit (EvRemove ?c) (w3\<lparr>fs := (fs w3)(?c := None)\<rparr>))"
                using eq \<open>http_get w srcURL = Some res\<close> True cp None False closing cl3 fail3
                by simp
            qed (rule fs3, rule pre3, rule tr3)
          next
            case closed: False
            with eq \<open>http_get w srcURL = Some res\<close> True cp None False cl3
            have "copyFromURL dstFile srcURL w = (Inr (), w3)" by simp
            with assms(2) have "r = Inr ()" "w' = w3" by simp_all
            with False full written n \<open>http_get w srcURL = Some res\<close> True closed
            show ?thesis
              by (auto simp: w3 fsw2 tr2)
          qed
        qed
      qed
    qed
  qed
qed

text \<open>
  Claim C9, amended. Once \<open>copyFromURL\<close> has created the destination file, every failure
  of the download (the request fails, the status is not 200, a read or write error during
  the copy, a byte count other than the response's content length, or an error of the
  final \<open>Close\<close>) ends with the destination closed and \<open>os.Remove\<close> called on it, and the
  results of both calls are dropped. When the system lets the file be removed, the file
  system is then the one before the call without the destination, and the removal is the
  last effect. When it does not, the destination stays on disk, holding the bytes of the
  body that were written; nothing reports this. A call that succeeds leaves the whole
  body in the destination.
\<close>

theorem copyFromURL_failed_download:
  assumes "os_Create dstFile w = (Inr f, w1)"
    and "copyFromURL dstFile srcURL w = (r, w')"
  shows "(\<forall>err. r = Inl err \<longrightarrow>
            (if filepath_Clean dstFile \<in> set (remove_denied w)
             then \<exists>data. prefix data (case http_get w srcURL of None \<Rightarrow> []
                                         | Some res \<Rightarrow> get_body res) \<and>
                    fs w' = (fs w)(filepath_Clean dstFile \<mapsto> File data) \<and>
                    trace w' = trace w @ [EvCreate (filepath_Clean dstFile), EvGet srcURL]
             else fs w' = (fs w)(filepath_Clean dstFile := None) \<and>
                  trace w' = trace w @ [EvCreate (filepath_Clean dstFile), EvGet srcURL,
                                        EvRemove (filepath_Clean dstFile)])) \<and>
         (r = Inr () \<longrightarrow>
            (\<exists>res. http_get w srcURL = Some res \<and> get_status res = 200 \<and>
                   \<not> get_body_fails res \<and>
                   (get_content_length res = - 1 \<or>
                    get_content_length res = int (length (get_body res))) \<and>
                   filepath_Clean dstFile \<notin> set (close_fails w) \<and>
                   fs w' = (fs w)(filepath_Clean dstFile \<mapsto> File (get_body res)) \<and>
                   trace w' = trace w @ [EvCreate (filepath_Clean dstFile), EvGet srcURL]))"
  using assms by (rule copyFromURL_after_create)
section \<open>Evaluation on concrete worlds\<close>

lemmas path_defs = filepath_Join_def filepath_Clean_def clean_elem_def filepath_Dir_def
  path_Base_def path_chain_def filepath_FromSlash_def

lemmas string_defs = strings_HasSuffix_def strings_HasPrefix_def strings_TrimPrefix_def
  strings_Contains_def suffix_to_prefix

lemmas os_defs = os_Open_def os_Stat_def node_at_def read_all_def os_MkdirAll_def is_File_def
  os_OpenFile_def os_Create_def open_trunc_def emit_def io_Copy_def file_Write_def
  file_Close_def os_Remove_def os_WriteFile_def node_size_def os_IsNotExist_def log_Printf_def

lemmas example_defs = example_world_def example_url_def example_archive_def
  example_marker_def

lemma replicate_numeral: "replicate (numeral v) x = x # replicate (numeral v - 1) x"
  by (simp add: numeral_eq_Suc)

lemma sha256_abc: "hex_encode (sha256_Sum ''abc'') = abc_digest"
  by (simp add: sha256_Sum_def sha256_def pad256_def be_bytes4_def be_bytes8_def compress_def
      H256_def K256_def next_window_def m32_def rotr_def not32_def Ch_def Maj_def bsig0_def
      bsig1_def ssig0_def ssig1_def replicate_numeral hex_encode_def hex_digit_def
      abc_digest_def)

theorem copyFromURL_failed_download_witness:
  "fst (copyFromURL example_archive example_url short_body_world) = Inl UnexpectedEOF \<and>
   fs (snd (copyFromURL example_archive example_url short_body_world)) example_archive = None \<and>
   trace (snd (copyFromURL example_archive example_url short_body_world)) =
     [EvCreate example_archive, EvGet example_url, EvRemove example_archive]"
proof -
  have create: "os_Create example_archive short_body_world =
      (Inr example_archive, snd (os_Create example_archive short_body_world))"
    by (simp add: short_body_world_def example_defs os_defs path_defs Let_def)
  have clean: "filepath_Clean example_archive = example_archive"
    by (simp add: example_defs path_defs Let_def)
  have failed: "fst (copyFromURL example_archive example_url short_body_world) =
     Inl UnexpectedEOF"
    by (simp add: copyFromURL_def copyFromURL_failed_def short_body_world_def example_defs
        os_defs path_defs Let_def)
  from copyFromURL_failed_download [OF create prod.collapse [symmetric]] failed clean
  show ?thesis
    by (simp add: short_body_world_def example_world_def)
qed

text \<open>
  The claim as stated fails: the download breaks off after three bytes, the destination
  cannot be removed, and \<open>copyFromURL\<close> returns the error with the three bytes on disk in
  the place of the archive.
\<close>

theorem copyFromURL_partial_file_counterexample:
  "fst (copyFromURL example_archive example_url kept_file_world) = Inl UnexpectedEOF \<and>
   fs (snd (copyFromURL example_archive example_url kept_file_world)) example_archive =
     Some (File ''abc'') \<and>
   trace (snd (copyFromURL example_archive example_url kept_file_world)) =
     [EvCreate example_archive, EvGet example_url]"
  by (simp add: copyFromURL_def copyFromURL_failed_def kept_file_world_def
      short_body_world_def example_defs os_defs path_defs Let_def)
section \<open>Properties of verifySHA256\<close>

text \<open>
  Claim C2, as amended. \<open>verifySHA256\<close> succeeds exactly when the file can be opened, is
  a regular file, and the lower-case hexadecimal SHA-256 digest of its whole contents is
  the expected string, character for character: the comparison is case-sensitive. When
  the digest is another string, the error names the file and the expected digest, and
  not the computed one.
\<close>

theorem verifySHA256_exact_digest:
  "(verifySHA256 w file wantHex = Inr () \<longleftrightarrow>
      (\<exists>data. os_Open w file = Inr (File data) \<and>
              hex_encode (sha256_Sum data) = wantHex)) \<and>
   (\<forall>data. os_Open w file = Inr (File data) \<and> hex_encode (sha256_Sum data) \<noteq> wantHex \<longrightarrow>
      verifySHA256 w file wantHex = Inl (Corrupt file wantHex))"
  by (auto simp: verifySHA256_def read_all_def split: sum.splits node.splits)

theorem verifySHA256_exact_digest_witness:
  "os_Open archive_world example_archive = Inr (File ''abc'') \<and>
   verifySHA256 archive_world example_archive abc_digest = Inr () \<and>
   hex_encode (sha256_Sum ''abc'') \<noteq> ''00'' \<and>
   verifySHA256 archive_world example_archive ''00'' = Inl (Corrupt example_archive ''00'')"
proof -
  have opened: "os_Open archive_world example_archive = Inr (File ''abc'')"
    by (simp add: archive_world_def example_defs os_defs path_defs Let_def)
  have differs: "hex_encode (sha256_Sum ''abc'') \<noteq> ''00''"
    by (simp add: sha256_abc abc_digest_def)
  from verifySHA256_exact_digest [of archive_world example_archive abc_digest]
    verifySHA256_exact_digest [of archive_world example_archive "''00''"]
    opened differs sha256_abc
  show ?thesis by auto
qed

text \<open>
  The claim as stated fails: the digest of the file in upper case is the expected digest
  up to case, and verification fails on it.
\<close>

theorem verifySHA256_upper_case_counterexample:
  "ascii_lower abc_digest_upper = ascii_lower (hex_encode (sha256_Sum ''abc'')) \<and>
   os_Open archive_world example_archive = Inr (File ''abc'') \<and>
   verifySHA256 archive_world example_archive abc_digest_upper =
     Inl (Corrupt example_archive abc_digest_upper)"
proof -
  have "ascii_lower abc_digest_upper = ascii_lower abc_digest"
    by (simp add: abc_digest_upper_def abc_digest_def ascii_lower_def lower_char_def)
  moreover have opened: "os_Open archive_world example_archive = Inr (File ''abc'')"
    by (simp add: archive_world_def example_defs os_defs path_defs Let_def)
  moreover have "abc_digest \<noteq> abc_digest_upper"
    by (simp add: abc_digest_upper_def abc_digest_def)
  ultimately show ?thesis
    by (simp add: verifySHA256_def read_all_def sha256_abc)
qed

section \<open>Properties of the unpackers\<close>

text \<open>
  Claim C1 fails for the zip format. \<open>unpackTarGz\<close> checks every entry name with
  \<open>validRelPath\<close>; \<open>unpackZip\<close> does not. Unpacking a zip archive whose one entry is the
  file \<open>../evil\<close> into \<open>/home/u/sdk/go1.21.0\<close> succeeds and creates
  \<open>/home/u/sdk/evil\<close>, outside the target directory, where there was no file before. The
  tar path rejects the same entry.
\<close>

theorem unpackZip_escapes_target:
  "fst (unpackArchive ''/home/u/sdk/go1.21.0''
          ''/home/u/sdk/go1.21.0/go1.21.0.windows-amd64.zip'' evil_zip_world) = Inr () \<and>
   fs evil_zip_world ''/home/u/sdk/evil'' = None \<and>
   fs (snd (unpackArchive ''/home/u/sdk/go1.21.0''
              ''/home/u/sdk/go1.21.0/go1.21.0.windows-amd64.zip'' evil_zip_world))
      ''/home/u/sdk/evil'' = Some (File ''x'') \<and>
   unpackArchive ''/home/u/sdk/go1.21.0'' example_archive evil_tar_world =
     (Inl (TarInvalidName ''../evil''), evil_tar_world)"
  by (simp add: unpackArchive_def unpackZip_def unpackTarGz_def validRelPath_def
      evil_zip_world_def evil_tar_world_def archive_world_def example_defs
      path_defs string_defs os_defs Let_def)

section \<open>Effects of the parts of install\<close>

lemma no_WriteFile_refl: "no_WriteFile w w"
  by (simp add: no_WriteFile_def)

lemma no_WriteFile_trans:
  "no_WriteFile w w1 \<Longrightarrow> no_WriteFile w1 w2 \<Longrightarrow> no_WriteFile w w2"
  by (auto simp: no_WriteFile_def)

lemma no_WriteFile_trace:
  "trace w1 = trace w @ evs \<Longrightarrow> \<forall>p. EvWriteFile p \<notin> set evs \<Longrightarrow> no_WriteFile w w1"
  by (auto simp: no_WriteFile_def)

lemma no_WriteFile_same_trace: "trace w1 = trace w \<Longrightarrow> no_WriteFile w w1"
  by (simp add: no_WriteFile_def)

lemma os_MkdirAll_no_WriteFile: "os_MkdirAll p w = (r, w1) \<Longrightarrow> no_WriteFile w w1"
  by (cases r) (auto dest!: os_MkdirAll_Inl os_MkdirAll_Inr
      simp: emit_def no_WriteFile_refl intro!: no_WriteFile_trace)

lemma os_OpenFile_no_WriteFile: "os_OpenFile p w = (r, w1) \<Longrightarrow> no_WriteFile w w1"
  by (cases r) (auto dest!: os_OpenFile_Inl os_OpenFile_Inr
      simp: emit_def no_WriteFile_refl intro!: no_WriteFile_trace)

lemma io_Copy_trace: "io_Copy f data fails w = (r, w1) \<Longrightarrow> trace w1 = trace w"
  by (auto simp: io_Copy_def file_Write_def Let_def split: option.splits if_splits)

lemma file_Close_same: "file_Close f w = (r, w1) \<Longrightarrow> w1 = w"
  by (simp add: file_Close_def split: if_splits)

lemma file_Close_snd: "snd (file_Close f w) = w"
  by (simp add: file_Close_def)

lemma copyFromURL_no_WriteFile:
  assumes "copyFromURL dstFile srcURL w = (r, w1)"
  shows "no_WriteFile w w1"
proof (cases "os_Create dstFile w")
  case (Pair c w0)
  show ?thesis
  proof (cases c)
    case (Inl e)
    with Pair assms have "w1 = w"
      by (auto simp: copyFromURL_def dest: os_Create_Inl)
    then show ?thesis by (simp add: no_WriteFile_refl)
  next
    case (Inr f)
    with Pair have "os_Create dstFile w = (Inr f, w0)" by simp
    from copyFromURL_after_create [OF this assms] show ?thesis
      by (cases r) (auto intro!: no_WriteFile_trace split: if_splits)
  qed
qed

lemma slurpURLToString_trace:
  "slurpURLToString url w = (r, w1) \<Longrightarrow> w1 = emit (EvGet url) w"
  by (auto simp: slurpURLToString_def Let_def split: option.splits if_splits)

lemma slurpURLToString_no_WriteFile:
  "slurpURLToString url w = (r, w1) \<Longrightarrow> no_WriteFile w w1"
  by (auto dest!: slurpURLToString_trace simp: emit_def intro!: no_WriteFile_trace)

lemma unpackTarGz_loop_no_WriteFile:
  "unpackTarGz_loop targetDir entries broken madeDir w = (r, w1) \<Longrightarrow> no_WriteFile w w1"
proof (induction entries arbitrary: madeDir w)
  case Nil
  then show ?case by (auto simp: no_WriteFile_refl split: if_splits)
next
  case (Cons f rest)
  show ?case
  proof (cases "validRelPath (tar_name f)")
    case False
    with Cons.prems show ?thesis by (simp add: no_WriteFile_refl)
  next
    case True
    let ?abs = "filepath_Join [targetDir,
        filepath_FromSlash (strings_TrimPrefix (tar_name f) ''go/'')]"
    show ?thesis
    proof (cases "tar_kind f")
      case TarOther
      with True Cons.prems show ?thesis by (simp add: Let_def no_WriteFile_refl)
    next
      case TarDirectory
      obtain r1 wa where mk: "os_MkdirAll ?abs w = (r1, wa)" by (metis prod.collapse)
      then have a: "no_WriteFile w wa" by (rule os_MkdirAll_no_WriteFile)
      show ?thesis
      proof (cases r1)
        case (Inl e)
        with True TarDirectory mk Cons.prems a show ?thesis by (simp add: Let_def)
      next
        case (Inr u)
        with True TarDirectory mk Cons.prems
        have "unpackTarGz_loop targetDir rest broken (madeDir(?abs := True)) wa = (r, w1)"
          by (simp add: Let_def)
        then have "no_WriteFile wa w1" by (rule Cons.IH)
        with a show ?thesis by (rule no_WriteFile_trans)
      qed
    next
      case TarRegular
      let ?dir = "filepath_Dir ?abs"
      obtain r1 wa where mk: "(if \<not> madeDir ?dir then os_MkdirAll ?dir w else (Inr (), w)) = (r1, wa)"
        by (metis prod.collapse)
      then have a: "no_WriteFile w wa"
        by (auto split: if_splits simp: no_WriteFile_refl dest: os_MkdirAll_no_WriteFile)
      show ?thesis
      proof (cases r1)
        case (Inl e)
        with True TarRegular mk Cons.prems a show ?thesis by (simp add: Let_def)
      next
        case (Inr u)
        obtain r2 wb where op: "os_OpenFile ?abs wa = (r2, wb)" by (metis prod.collapse)
        then have b: "no_WriteFile wa wb" by (rule os_OpenFile_no_WriteFile)
        show ?thesis
        proof (cases r2)
          case (Inl e)
          with True TarRegular mk Inr op Cons.prems have "w1 = wb" by (simp add: Let_def)
          with a b show ?thesis by (auto intro: no_WriteFile_trans)
        next
          case opened: (Inr wfile)
          obtain n err wc where cp: "io_Copy wfile (tar_data f) (tar_data_fails f) wb = ((n, err), wc)"
            by (metis prod.collapse)
          then have c: "no_WriteFile wb wc"
            by (auto dest!: io_Copy_trace intro: no_WriteFile_same_trace)
          from a b c have abc: "no_WriteFile w wc" by (blast intro: no_WriteFile_trans)
          show ?thesis
          proof (cases "err = None \<and> n = tar_size f \<and> wfile \<notin> set (close_fails wc)")
            case False
            with True TarRegular mk Inr op opened cp Cons.prems have "w1 = wc"
              by (auto simp: Let_def file_Close_def split: option.splits if_splits)
            with abc show ?thesis by simp
          next
            case ok: True
            with True TarRegular mk Inr op opened cp Cons.prems
            have "unpackTarGz_loop targetDir rest broken
                    (if \<not> madeDir ?dir then madeDir(?dir := True) else madeDir) wc = (r, w1)"
              by (simp add: Let_def file_Close_def)
            then have "no_WriteFile wc w1" by (rule Cons.IH)
            with abc show ?thesis by (rule no_WriteFile_trans)
          qed
        qed
      qed
    qed
  qed
qed


lemma unpackZip_loop_no_WriteFile:
  "unpackZip_loop targetDir files w = (r, w1) \<Longrightarrow> no_WriteFile w w1"
proof (induction files arbitrary: w)
  case Nil
  then show ?case by (simp add: no_WriteFile_refl)
next
  case (Cons f rest)
  let ?out = "filepath_Join [targetDir, strings_TrimPrefix (zip_name f) ''go/'']"
  show ?case
  proof (cases "zip_is_dir f")
    case True
    obtain r1 wa where mk: "os_MkdirAll ?out w = (r1, wa)" by (metis prod.collapse)
    then have a: "no_WriteFile w wa" by (rule os_MkdirAll_no_WriteFile)
    show ?thesis
    proof (cases r1)
      case (Inl e)
      with True mk Cons.prems a show ?thesis by (simp add: Let_def)
    next
      case (Inr u)
      with True mk Cons.prems have "unpackZip_loop targetDir rest wa = (r, w1)"
        by (simp add: Let_def)
      then have "no_WriteFile wa w1" by (rule Cons.IH)
      with a show ?thesis by (rule no_WriteFile_trans)
    qed
  next
    case False
    show ?thesis
    proof (cases "zip_open_fails f")
      case True
      with False Cons.prems show ?thesis by (simp add: Let_def no_WriteFile_refl)
    next
      case opens: False
      obtain r1 wa where mk: "os_MkdirAll (filepath_Dir ?out) w = (r1, wa)"
        by (metis prod.collapse)
      then have a: "no_WriteFile w wa" by (rule os_MkdirAll_no_WriteFile)
      show ?thesis
      proof (cases r1)
        case (Inl e)
        with False opens mk Cons.prems a show ?thesis by (simp add: Let_def)
      next
        case (Inr u)
        obtain r2 wb where op: "os_OpenFile ?out wa = (r2, wb)" by (metis prod.collapse)
        then have b: "no_WriteFile wa wb" by (rule os_OpenFile_no_WriteFile)
        show ?thesis
        proof (cases r2)
          case (Inl e)
          with False opens mk Inr op Cons.prems have "w1 = wb" by (simp add: Let_def)
          with a b show ?thesis by (auto intro: no_WriteFile_trans)
        next
          case opened: (Inr out)
          obtain n err wc where
            cp: "io_Copy out (zip_data f) (zip_data_fails f) wb = ((n, err), wc)"
            by (metis prod.collapse)
          then have c: "no_WriteFile wb wc"
            by (auto dest!: io_Copy_trace intro: no_WriteFile_same_trace)
          from a b c have abc: "no_WriteFile w wc" by (blast intro: no_WriteFile_trans)
          show ?thesis
          proof (cases err)
            case (Some e)
            with False opens mk Inr op opened cp Cons.prems have "w1 = wc"
              by (simp add: Let_def file_Close_snd)
            with abc show ?thesis by simp
          next
            case None
            show ?thesis
            proof (cases "out \<in> set (close_fails wc)")
              case True
              with None False opens mk Inr op opened cp Cons.prems have "w1 = wc"
                by (simp add: Let_def file_Close_def)
              with abc show ?thesis by simp
            next
              case closed: False
              with None False opens mk Inr op opened cp Cons.prems
              have "unpackZip_loop targetDir rest wc = (r, w1)"
                by (simp add: Let_def file_Close_def)
              then have "no_WriteFile wc w1" by (rule Cons.IH)
              with abc show ?thesis by (rule no_WriteFile_trans)
            qed
          qed
        qed
      qed
    qed
  qed
qed

lemma unpackArchive_no_WriteFile:
  "unpackArchive targetDir archiveFile w = (r, w1) \<Longrightarrow> no_WriteFile w w1"
  by (auto simp: unpackArchive_def unpackZip_def unpackTarGz_def no_WriteFile_refl
      split: if_splits sum.splits option.splits
      dest: unpackZip_loop_no_WriteFile unpackTarGz_loop_no_WriteFile)

lemma install_archive_no_WriteFile:
  assumes "install_archive archiveFile goURL contentLength w = (r, w1)"
  shows "no_WriteFile w w1"
proof -
  obtain r0 w0 where cp: "copyFromURL archiveFile goURL w = (r0, w0)"
    by (metis prod.collapse)
  then have "no_WriteFile w w0" by (rule copyFromURL_no_WriteFile)
  moreover from assms cp have "w1 = w \<or> w1 = w0"
    by (auto simp: install_archive_def Let_def split: if_splits sum.splits option.splits)
  ultimately show ?thesis by (auto simp: no_WriteFile_refl)
qed

section \<open>Cleaned paths\<close>

lemma filepath_Clean_render: "filepath_Clean p = render (rooted p) (clean_elems p)"
  by (cases p) (simp_all add: filepath_Clean_def render_def clean_elems_def rooted_def
      clean_elem_def Let_def)

lemma split_slash_not_Nil [simp]: "split_slash s \<noteq> []"
  by (induction s) (auto split: list.splits)

lemma split_slash_append:
  "split_slash (a @ CHR ''/'' # b) = split_slash a @ split_slash b"
  by (induction a) (auto split: list.splits)

lemma split_slash_plain: "CHR ''/'' \<notin> set x \<Longrightarrow> split_slash x = [x]"
  by (induction x) auto

lemma split_slash_free: "e \<in> set (split_slash s) \<Longrightarrow> CHR ''/'' \<notin> set e"
  by (induction s arbitrary: e) (auto split: list.splits if_splits)

lemma join_slash_snoc:
  "es \<noteq> [] \<Longrightarrow> join_slash (es @ [x]) = join_slash es @ CHR ''/'' # x"
  by (induction es rule: join_slash.induct) auto

lemma split_join_slash:
  "es \<noteq> [] \<Longrightarrow> \<forall>e\<in>set es. CHR ''/'' \<notin> set e \<Longrightarrow> split_slash (join_slash es) = es"
proof (induction es rule: rev_induct)
  case Nil
  then show ?case by simp
next
  case (snoc x es)
  show ?case
  proof (cases "es = []")
    case True
    with snoc.prems show ?thesis by (simp add: split_slash_plain)
  next
    case False
    with snoc show ?thesis
      by (simp add: join_slash_snoc split_slash_append split_slash_plain)
  qed
qed

lemma normal_Nil: "normal r []"
  by (simp add: normal_def)

lemma normal_elem:
  assumes "normal r es" "e \<in> set es"
  shows "e \<noteq> [] \<and> e \<noteq> ''.'' \<and> CHR ''/'' \<notin> set e"
proof -
  from assms(1) obtain k ps where es: "es = replicate k ''..'' @ ps"
    and ps: "\<forall>e\<in>set ps. plain e"
    unfolding normal_def by blast
  from assms(2) have "e = ''..'' \<or> e \<in> set ps"
    unfolding es by auto
  then show ?thesis
  proof
    assume "e = ''..''"
    then show ?thesis by simp
  next
    assume "e \<in> set ps"
    with ps have "plain e" by blast
    then show ?thesis by (simp add: plain_def)
  qed
qed

lemma normal_clean_elem:
  assumes "normal r acc" "CHR ''/'' \<notin> set x"
  shows "normal r (clean_elem r acc x)"
proof -
  from assms(1) obtain k ps where acc: "acc = replicate k ''..'' @ ps"
    and ps: "\<forall>e\<in>set ps. plain e" and r: "r \<longrightarrow> k = 0"
    unfolding normal_def by blast
  consider (skip) "x = [] \<or> x = ''.''" | (up) "x = ''..''" | (down) "plain x"
    using assms(2) by (auto simp: plain_def)
  then show ?thesis
  proof cases
    case skip
    with assms(1) show ?thesis by (auto simp: clean_elem_def)
  next
    case down
    then have "clean_elem r acc x = replicate k ''..'' @ (ps @ [x])"
      by (auto simp: clean_elem_def plain_def acc)
    with ps r down show ?thesis
      unfolding normal_def by (intro exI [of _ k] exI [of _ "ps @ [x]"]) auto
  next
    case up
    show ?thesis
    proof (cases "ps = []")
      case False
      then have "last acc = last ps" "acc \<noteq> []" by (simp_all add: acc)
      moreover from False ps have "last ps \<noteq> ''..''" by (auto simp: plain_def)
      ultimately have "clean_elem r acc x = replicate k ''..'' @ butlast ps"
        using up False by (simp add: clean_elem_def acc butlast_append)
      moreover have "\<forall>e\<in>set (butlast ps). plain e"
        using ps by (auto dest: in_set_butlastD)
      ultimately show ?thesis using r
        unfolding normal_def by (intro exI [of _ k] exI [of _ "butlast ps"]) auto
    next
      case True
      then have acc': "acc = replicate k ''..''" by (simp add: acc)
      show ?thesis
      proof (cases r)
        case True
        with r acc' up have "clean_elem r acc x = []" by (simp add: clean_elem_def)
        then show ?thesis by (simp add: normal_Nil)
      next
        case False
        have "acc = [] \<or> last acc = ''..''" by (cases k) (simp_all add: acc')
        with False up have "clean_elem r acc x = replicate (Suc k) ''..'' @ []"
          by (auto simp: clean_elem_def acc' replicate_append_same)
        with False show ?thesis
          unfolding normal_def by (intro exI [of _ "Suc k"] exI [of _ "[]"]) auto
      qed
    qed
  qed
qed

lemma normal_foldl:
  "normal r acc \<Longrightarrow> \<forall>x\<in>set xs. CHR ''/'' \<notin> set x \<Longrightarrow> normal r (foldl (clean_elem r) acc xs)"
  by (induction xs arbitrary: acc) (auto intro: normal_clean_elem)

lemma normal_clean_elems: "normal (rooted p) (clean_elems p)"
  unfolding clean_elems_def
  by (rule normal_foldl) (auto simp: normal_Nil dest: split_slash_free)

lemma clean_elem_normal_snoc:
  assumes "normal r (acc @ x # es)"
  shows "clean_elem r acc x = acc @ [x]"
proof -
  from assms obtain k ps where eq: "acc @ x # es = replicate k ''..'' @ ps"
    and ps: "\<forall>e\<in>set ps. plain e" and r: "r \<longrightarrow> k = 0"
    unfolding normal_def by blast
  have x: "x \<noteq> [] \<and> x \<noteq> ''.''"
    using normal_elem [OF assms, of x] by simp
  show ?thesis
  proof (cases "x = ''..''")
    case False
    with x show ?thesis by (simp add: clean_elem_def)
  next
    case True
    have "x \<notin> set ps" using ps True by (auto simp: plain_def)
    have len: "length acc < k"
    proof (rule ccontr)
      assume "\<not> length acc < k"
      then have "k \<le> length acc" by simp
      from eq have "drop k (acc @ x # es) = ps" by simp
      with \<open>k \<le> length acc\<close> have "ps = drop k acc @ x # es" by simp
      with \<open>x \<notin> set ps\<close> show False by simp
    qed
    from eq have "take (length acc) (acc @ x # es) = take (length acc) (replicate k ''..'' @ ps)"
      by simp
    with len have acc: "acc = replicate (length acc) ''..''" by simp
    from len r have "\<not> r" by auto
    have "acc = [] \<or> last acc = ''..''"
    proof (cases "acc = []")
      case False
      then have "last acc \<in> set acc" by simp
      with acc have "last acc \<in> set (replicate (length acc) ''..'')" by simp
      then show ?thesis by simp
    qed simp
    with True \<open>\<not> r\<close> show ?thesis by (auto simp: clean_elem_def)
  qed
qed

lemma foldl_clean_elem_normal:
  "normal r (acc @ es) \<Longrightarrow> foldl (clean_elem r) acc es = acc @ es"
proof (induction es arbitrary: acc)
  case Nil
  then show ?case by simp
next
  case (Cons x es)
  from Cons.prems have "clean_elem r acc x = acc @ [x]" by (rule clean_elem_normal_snoc)
  moreover from Cons.prems have "normal r ((acc @ [x]) @ es)" by simp
  then have "foldl (clean_elem r) (acc @ [x]) es = (acc @ [x]) @ es" by (rule Cons.IH)
  ultimately show ?case by simp
qed

lemma normal_slash_free: "normal r es \<Longrightarrow> \<forall>e\<in>set es. CHR ''/'' \<notin> set e"
  by (blast dest: normal_elem)

lemma join_slash_hd:
  assumes "normal r es" "es \<noteq> []"
  shows "join_slash es \<noteq> [] \<and> hd (join_slash es) \<noteq> CHR ''/''"
proof -
  from assms(2) obtain e rest where es: "es = e # rest" by (cases es) auto
  with assms(1) have e: "e \<noteq> []" "CHR ''/'' \<notin> set e"
    using normal_elem [of r es e] by auto
  then have "hd e \<noteq> CHR ''/''" by (cases e) auto
  with e show ?thesis unfolding es by (cases rest) auto
qed

lemma split_render:
  assumes "normal r es"
  shows "rooted (render r es) = r"
    and "filter (\<lambda>e. e \<noteq> [] \<and> e \<noteq> ''.'') (split_slash (render r es)) = es"
    and "foldl (clean_elem r) [] (split_slash (render r es)) = es"
proof -
  have keep: "filter (\<lambda>e. e \<noteq> [] \<and> e \<noteq> ''.'') es = es"
    using assms by (auto simp: filter_id_conv dest: normal_elem)
  have fold: "foldl (clean_elem r) [] es = es"
    using assms foldl_clean_elem_normal [of r "[]" es] by simp
  have split: "es \<noteq> [] \<Longrightarrow> split_slash (join_slash es) = es"
    using assms by (intro split_join_slash normal_slash_free)
  show "rooted (render r es) = r"
    using join_slash_hd [OF assms] by (cases "es = []") (auto simp: render_def rooted_def)
  show "filter (\<lambda>e. e \<noteq> [] \<and> e \<noteq> ''.'') (split_slash (render r es)) = es"
    using keep split by (cases "es = []") (auto simp: render_def)
  show "foldl (clean_elem r) [] (split_slash (render r es)) = es"
    using fold split by (cases "es = []") (auto simp: render_def clean_elem_def)
qed

lemma filepath_Clean_normal: "normal r es \<Longrightarrow> filepath_Clean (render r es) = render r es"
  by (simp add: filepath_Clean_render clean_elems_def split_render)

lemma filepath_Clean_idem: "filepath_Clean (filepath_Clean p) = filepath_Clean p"
  unfolding filepath_Clean_render [of p]
  by (rule filepath_Clean_normal) (rule normal_clean_elems)

lemma normal_snoc_plain: "normal r es \<Longrightarrow> plain x \<Longrightarrow> normal r (es @ [x])"
proof -
  assume "normal r es" "plain x"
  then obtain k ps where "es = replicate k ''..'' @ ps" "\<forall>e\<in>set ps. plain e" "r \<longrightarrow> k = 0"
    unfolding normal_def by blast
  with \<open>plain x\<close> show ?thesis
    unfolding normal_def by (intro exI [of _ k] exI [of _ "ps @ [x]"]) auto
qed

lemma filepath_Join_plain:
  assumes "plain x"
  shows "filepath_Join [t, x] = render (rooted t) (clean_elems t @ [x])"
proof (cases "t = []")
  case True
  with assms show ?thesis
    by (cases x) (auto simp: filepath_Join_def filepath_Clean_def plain_def split_slash_plain
        clean_elem_def rooted_def clean_elems_def render_def Let_def)
next
  case False
  have x: "split_slash x = [x]" "clean_elem (rooted t) (clean_elems t) x = clean_elems t @ [x]"
    using assms by (auto simp: plain_def split_slash_plain clean_elem_def)
  have "filepath_Join [t, x] = filepath_Clean (t @ CHR ''/'' # x)"
    using False by (simp add: filepath_Join_def)
  also have "\<dots> = render (rooted t) (foldl (clean_elem (rooted t)) [] (split_slash t @ [x]))"
    using False x
    by (simp add: filepath_Clean_render clean_elems_def rooted_def split_slash_append)
  also have "\<dots> = render (rooted t) (clean_elems t @ [x])"
    using x by (simp add: clean_elems_def)
  finally show ?thesis .
qed

lemma render_snoc:
  "render r (es @ [x]) =
     (if es = [] then (if r then CHR ''/'' # x else x) else render r es @ CHR ''/'' # x)"
  by (auto simp: render_def join_slash_snoc)

lemma render_snoc_inject:
  "render r (es @ [x]) = render r (es @ [y]) \<Longrightarrow> x = y"
  by (auto simp: render_snoc split: if_splits)

lemma render_inject:
  assumes "normal r es" "normal r es'" "es \<noteq> []" "es' \<noteq> []"
    and eq: "render r es = render r es'"
  shows "es = es'"
proof -
  from eq assms(3,4) have "join_slash es = join_slash es'"
    by (auto simp: render_def split: if_splits)
  then have "split_slash (join_slash es) = split_slash (join_slash es')" by simp
  then show ?thesis
    using assms(1-4) by (simp add: split_join_slash normal_slash_free)
qed

lemma path_chain_render:
  assumes "normal r es"
  shows "path_chain (render r es) = map (render r) (tl (prefixes es))"
proof -
  have "rooted (render r es) = r" using assms by (rule split_render)
  then have r: "(render r es \<noteq> [] \<and> hd (render r es) = CHR ''/'') = r"
    by (simp add: rooted_def)
  have "\<forall>ps\<in>set (tl (prefixes es)). ps \<noteq> []"
    by (cases es) (auto simp: prefixes_eq_snoc)
  then have "map (\<lambda>ps. if r then CHR ''/'' # join_slash ps else join_slash ps) (tl (prefixes es))
           = map (render r) (tl (prefixes es))"
    by (auto simp: render_def)
  then show ?thesis
    using split_render(2) [OF assms] r by (simp add: path_chain_def Let_def)
qed

lemma normal_prefix:
  assumes "normal r es" "prefix ps es"
  shows "normal r ps"
proof -
  from assms(1) obtain k qs where es: "es = replicate k ''..'' @ qs"
    and qs: "\<forall>e\<in>set qs. plain e" and r: "r \<longrightarrow> k = 0"
    unfolding normal_def by blast
  from assms(2) obtain zs where "es = ps @ zs" by (auto simp: prefix_def)
  then have "ps = take (length ps) es" by simp
  also have "\<dots> = replicate (min (length ps) k) ''..'' @ take (length ps - k) qs"
    by (simp add: es)
  finally have ps: "ps = replicate (min (length ps) k) ''..'' @ take (length ps - k) qs" .
  have plain: "\<forall>e\<in>set (take (length ps - k) qs). plain e"
    using qs by (blast dest: in_set_takeD)
  have root: "r \<longrightarrow> min (length ps) k = 0"
    using r by simp
  from ps plain root show ?thesis
    unfolding normal_def by blast
qed

lemma tl_prefixes:
  assumes "ps \<in> set (tl (prefixes es))"
  shows "prefix ps es \<and> ps \<noteq> []"
proof (cases es)
  case Nil
  with assms show ?thesis by simp
next
  case (Cons a rest)
  with assms obtain qs where "ps = a # qs" "qs \<in> set (prefixes rest)" by auto
  with Cons show ?thesis by (simp add: in_set_prefixes)
qed

lemma child_not_in_path_chain:
  assumes "normal r es" "plain x"
  shows "render r (es @ [x]) \<notin> set (path_chain (render r es))"
proof
  assume "render r (es @ [x]) \<in> set (path_chain (render r es))"
  then have "render r (es @ [x]) \<in> render r ` set (tl (prefixes es))"
    by (simp add: path_chain_render [OF assms(1)])
  then obtain ps where ps: "ps \<in> set (tl (prefixes es))"
    and eq: "render r (es @ [x]) = render r ps"
    by blast
  from ps have pre: "prefix ps es" and ne: "ps \<noteq> []"
    by (simp_all add: tl_prefixes)
  have 1: "normal r ps" using assms(1) pre by (rule normal_prefix)
  have 2: "normal r (es @ [x])" using assms by (rule normal_snoc_plain)
  have 3: "es @ [x] \<noteq> []" by simp
  from 2 1 3 ne eq have "es @ [x] = ps" by (rule render_inject)
  with pre have "length (es @ [x]) \<le> length es" by (auto dest: prefix_length_le)
  then show False by simp
qed


section \<open>What the steps of install leave untouched\<close>

lemma plain_unpackedOkay: "plain unpackedOkay"
  by (simp add: plain_def unpackedOkay_def)

lemma filepath_Join_plain_clean:
  assumes "plain x"
  shows "filepath_Clean (filepath_Join [t, x]) = filepath_Join [t, x]"
proof -
  have "normal (rooted t) (clean_elems t @ [x])"
    using normal_clean_elems assms by (rule normal_snoc_plain)
  then show ?thesis
    by (simp add: filepath_Join_plain [OF assms] filepath_Clean_normal)
qed

lemma filepath_Join_plain_inject:
  "plain x \<Longrightarrow> plain y \<Longrightarrow> filepath_Join [t, x] = filepath_Join [t, y] \<Longrightarrow> x = y"
  by (auto simp: filepath_Join_plain dest: render_snoc_inject)

lemma filepath_Join_not_in_chain:
  "plain x \<Longrightarrow> filepath_Join [t, x] \<notin> set (path_chain (filepath_Clean t))"
  unfolding filepath_Clean_render
  by (simp add: filepath_Join_plain child_not_in_path_chain normal_clean_elems)

lemma foldl_mkdir_other:
  "a \<notin> set chain \<Longrightarrow> foldl (\<lambda>m a. m(a \<mapsto> Dir)) m chain a = m a"
  by (induction chain arbitrary: m) auto

lemma os_MkdirAll_keeps_child:
  assumes "os_MkdirAll t w = (r, w1)" "plain x"
  shows "fs w1 (filepath_Join [t, x]) = fs w (filepath_Join [t, x])"
proof (cases r)
  case (Inl e)
  with assms(1) show ?thesis by (auto dest: os_MkdirAll_Inl)
next
  case (Inr u)
  with assms(1) have "fs w1 = foldl (\<lambda>m a. m(a \<mapsto> Dir)) (fs w) (path_chain (filepath_Clean t))"
    by (auto dest!: os_MkdirAll_Inr simp: emit_def)
  then show ?thesis
    using filepath_Join_not_in_chain [OF assms(2), of t] by (simp add: foldl_mkdir_other)
qed

lemma copyFromURL_fs_other:
  assumes "copyFromURL dstFile srcURL w = (r, w1)" "p \<noteq> filepath_Clean dstFile"
  shows "fs w1 p = fs w p"
proof (cases "os_Create dstFile w")
  case (Pair c w0)
  show ?thesis
  proof (cases c)
    case (Inl e)
    with Pair assms(1) have "w1 = w"
      by (auto simp: copyFromURL_def dest: os_Create_Inl)
    then show ?thesis by simp
  next
    case (Inr f)
    with Pair have "os_Create dstFile w = (Inr f, w0)" by simp
    from copyFromURL_after_create [OF this assms(1)] assms(2) show ?thesis
      by (cases r) (auto split: if_splits)
  qed
qed

lemma install_archive_fs_other:
  assumes "install_archive archiveFile goURL contentLength w = (r, w1)"
    and "p \<noteq> filepath_Clean archiveFile"
  shows "fs w1 p = fs w p"
proof -
  obtain r0 w0 where cp: "copyFromURL archiveFile goURL w = (r0, w0)"
    by (metis prod.collapse)
  then have "fs w0 p = fs w p" using assms(2) by (rule copyFromURL_fs_other)
  moreover from assms(1) cp have "w1 = w \<or> w1 = w0"
    by (auto simp: install_archive_def Let_def split: if_splits sum.splits option.splits)
  ultimately show ?thesis by auto
qed

lemma path_Base_last:
  assumes "u \<noteq> []" "last u \<noteq> CHR ''/''"
  shows "path_Base u \<noteq> [] \<and> CHR ''/'' \<notin> set (path_Base u) \<and> last (path_Base u) = last u"
proof -
  from assms(1) obtain a rest where rv: "rev u = a # rest"
    by (cases "rev u") auto
  have "hd (rev u) = last u" using assms(1) by (simp add: hd_rev)
  then have a: "a = last u" by (simp add: rv)
  then have na: "a \<noteq> CHR ''/''" using assms(2) by simp
  have pb: "path_Base u = rev (takeWhile (\<lambda>c. c \<noteq> CHR ''/'') rest) @ [a]"
    unfolding path_Base_def Let_def rv using assms(1) na by simp
  have "CHR ''/'' \<notin> set (takeWhile (\<lambda>c. c \<noteq> CHR ''/'') rest)"
    by (auto dest: set_takeWhileD)
  with pb a na show ?thesis by auto
qed

lemma versionArchiveURL_last:
  "versionArchiveURL w version \<noteq> [] \<and>
   (last (versionArchiveURL w version) = CHR ''p'' \<or>
    last (versionArchiveURL w version) = CHR ''z'')"
  by (simp add: versionArchiveURL_def Let_def)

lemma archive_base_plain:
  "plain (path_Base (versionArchiveURL w version)) \<and>
   path_Base (versionArchiveURL w version) \<noteq> unpackedOkay"
proof -
  let ?u = "versionArchiveURL w version"
  from versionArchiveURL_last [of w version]
  have u: "?u \<noteq> []" and l: "last ?u = CHR ''p'' \<or> last ?u = CHR ''z''" by auto
  then have "last ?u \<noteq> CHR ''/''" by auto
  with u have b: "path_Base ?u \<noteq> []" "CHR ''/'' \<notin> set (path_Base ?u)"
    "last (path_Base ?u) = last ?u"
    using path_Base_last [of ?u] by auto
  have "path_Base ?u \<noteq> ''.''" "path_Base ?u \<noteq> ''..''" "path_Base ?u \<noteq> unpackedOkay"
    using b(3) l by (auto simp: unpackedOkay_def)
  with b show ?thesis by (simp add: plain_def)
qed


section \<open>The run of install\<close>

lemma logged_since_then:
  assumes "logged_since w w1 msg" "no_WriteFile w1 w2"
  shows "logged_since w w2 msg"
proof -
  from assms(1) obtain evs where 1: "trace w1 = trace w @ evs" "EvLog msg \<in> set evs"
    unfolding logged_since_def by blast
  from assms(2) obtain evs' where 2: "trace w2 = trace w1 @ evs'"
    unfolding no_WriteFile_def by blast
  from 1 2 have "trace w2 = trace w @ (evs @ evs')" "EvLog msg \<in> set (evs @ evs')"
    by simp_all
  then show ?thesis unfolding logged_since_def by blast
qed

lemma logged_since_log:
  assumes "no_WriteFile w w1"
  shows "logged_since w (log_Printf msg w1) msg"
proof -
  from assms obtain evs where "trace w1 = trace w @ evs"
    unfolding no_WriteFile_def by blast
  then have "trace (log_Printf msg w1) = trace w @ (evs @ [EvLog msg])"
    "EvLog msg \<in> set (evs @ [EvLog msg])"
    by (simp_all add: log_Printf_def emit_def)
  then show ?thesis unfolding logged_since_def by blast
qed

lemma marker_path_clean: "filepath_Clean (marker_path t) = marker_path t"
  unfolding marker_path_def by (rule filepath_Join_plain_clean) (rule plain_unpackedOkay)

lemma archive_path_clean: "filepath_Clean (archive_path w t v) = archive_path w t v"
  unfolding archive_path_def by (rule filepath_Join_plain_clean) (simp add: archive_base_plain)

lemma marker_not_archive: "marker_path t \<noteq> archive_path w t v"
proof
  assume eq: "marker_path t = archive_path w t v"
  have 1: "plain unpackedOkay" by (rule plain_unpackedOkay)
  have 2: "plain (path_Base (versionArchiveURL w v))" by (simp add: archive_base_plain)
  from eq have "filepath_Join [t, unpackedOkay] =
      filepath_Join [t, path_Base (versionArchiveURL w v)]"
    by (simp only: marker_path_def archive_path_def)
  with 1 2 have "unpackedOkay = path_Base (versionArchiveURL w v)"
    by (rule filepath_Join_plain_inject)
  with archive_base_plain [of w v] show False by simp
qed

lemma install_run2:
  assumes run: "install targetDir version w = (r, w')"
  defines "marker \<equiv> marker_path targetDir"
    and "goURL \<equiv> versionArchiveURL w version"
    and "archiveFile \<equiv> archive_path w targetDir version"
  shows "(\<exists>n. os_Stat w marker = Inr n \<and> r = Inr () \<and>
              w' = log_Printf (already_msg targetDir version) w)
       \<or> ((\<exists>e. os_Stat w marker = Inl e) \<and> (\<exists>err. r = Inl err) \<and> no_WriteFile w w' \<and>
           (logged_since w w' (unpacking_msg archiveFile) \<or> fs w' marker = fs w marker))
       \<or> (\<exists>e w1 res w3 body w4 w6 w7.
             os_Stat w marker = Inl e \<and>
             os_MkdirAll targetDir w = (Inr (), w1) \<and>
             http_head w goURL = Some res \<and> head_status res = 200 \<and>
             install_archive archiveFile goURL (head_content_length res)
               (emit (EvHead goURL) w1) = (Inr (), w3) \<and>
             slurpURLToString (goURL @ ''.sha256'') w3 = (Inr body, w4) \<and>
             verifySHA256 w4 archiveFile (strings_TrimSpace body) = Inr () \<and>
             unpackArchive targetDir archiveFile
               (log_Printf (unpacking_msg archiveFile) w4) = (Inr (), w6) \<and>
             w7 = emit (EvWriteFile marker) (w6\<lparr>fs := (fs w6)(marker \<mapsto> File [])\<rparr>) \<and>
             no_WriteFile w w6 \<and> logged_since w w6 (unpacking_msg archiveFile) \<and>
             (if marker \<in> set (close_fails w6)
              then os_WriteFile marker [] w6 = (Inl (PathError ''close'' marker EIO), w7) \<and>
                   r = Inl (PathError ''close'' marker EIO) \<and> w' = w7
              else os_WriteFile marker [] w6 = (Inr (), w7) \<and>
                   r = Inr () \<and> w' = log_Printf (success_msg version) w7))"
proof (cases "os_Stat w marker")
  case (Inr n)
  with run show ?thesis
    by (simp add: install_def marker_def marker_path_def already_msg_def)
next
  case (Inl e)
  note defs = install_def marker_def marker_path_def goURL_def archiveFile_def archive_path_def
    unpacking_msg_def success_msg_def Let_def
  obtain r1 w1 where mk: "os_MkdirAll targetDir w = (r1, w1)" by (metis prod.collapse)
  then have t1: "no_WriteFile w w1" by (rule os_MkdirAll_no_WriteFile)
  have f1: "fs w1 marker = fs w marker"
    unfolding marker_def marker_path_def using mk plain_unpackedOkay
    by (rule os_MkdirAll_keeps_child)
  define w2 where "w2 = emit (EvHead goURL) w1"
  have t2: "no_WriteFile w w2"
    using t1 by (auto simp: no_WriteFile_def w2_def emit_def)
  have f2: "fs w2 marker = fs w marker"
    using f1 by (simp add: w2_def emit_def)
  have early: ?thesis if "r = Inl err" "no_WriteFile w w'" "fs w' marker = fs w marker" for err
    using that Inl by blast
  have late: ?thesis
    if "r = Inl err" "no_WriteFile w w'" "logged_since w w' (unpacking_msg archiveFile)" for err
    using that Inl by blast
  show ?thesis
  proof (cases r1)
    case bad: (Inl err)
    with run Inl mk have "r = Inl err" "w' = w1" by (simp_all add: defs)
    with t1 f1 show ?thesis by (intro early) simp_all
  next
    case made: (Inr u)
    show ?thesis
    proof (cases "http_head w goURL")
      case None
      with run Inl mk made have "r = Inl (TransportError goURL)" "w' = w2"
        by (simp_all add: defs w2_def)
      with t2 f2 show ?thesis by (intro early) simp_all
    next
      case (Some res)
      show ?thesis
      proof (cases "head_status res = 200")
        case False
        with run Inl mk made Some have "\<exists>err. r = Inl err" "w' = w2"
          by (auto simp add: defs w2_def split: if_splits)
        then obtain err where "r = Inl err" "w' = w2" by blast
        with t2 f2 show ?thesis by (intro early) simp_all
      next
        case True
        obtain r3 w3 where
          ar: "install_archive archiveFile goURL (head_content_length res) w2 = (r3, w3)"
          by (metis prod.collapse)
        then have "no_WriteFile w2 w3" by (rule install_archive_no_WriteFile)
        with t2 have t3: "no_WriteFile w w3" by (rule no_WriteFile_trans)
        have "marker \<noteq> filepath_Clean archiveFile"
          by (simp add: marker_def archiveFile_def archive_path_clean marker_not_archive)
        with ar have "fs w3 marker = fs w2 marker" by (rule install_archive_fs_other)
        with f2 have f3: "fs w3 marker = fs w marker" by simp
        show ?thesis
        proof (cases r3)
          case bad: (Inl err)
          with run Inl mk made Some True ar have "r = Inl err" "w' = w3"
            by (simp_all add: defs w2_def)
          with t3 f3 show ?thesis by (intro early) simp_all
        next
          case fetched: (Inr u3)
          obtain r4 w4 where sl: "slurpURLToString (goURL @ ''.sha256'') w3 = (r4, w4)"
            by (metis prod.collapse)
          then have "no_WriteFile w3 w4" by (rule slurpURLToString_no_WriteFile)
          with t3 have t4: "no_WriteFile w w4" by (rule no_WriteFile_trans)
          from sl f3 have f4: "fs w4 marker = fs w marker"
            by (auto dest!: slurpURLToString_trace simp: emit_def)
          show ?thesis
          proof (cases r4)
            case bad: (Inl err)
            with run Inl mk made Some True ar fetched sl have "r = Inl err" "w' = w4"
              by (simp_all add: defs w2_def)
            with t4 f4 show ?thesis by (intro early) simp_all
          next
            case slurped: (Inr body)
            show ?thesis
            proof (cases "verifySHA256 w4 archiveFile (strings_TrimSpace body)")
              case bad: (Inl err)
              with run Inl mk made Some True ar fetched sl slurped
              have "r = Inl (ErrorVerifying archiveFile err)" "w' = w4"
                by (simp_all add: defs w2_def)
              with t4 f4 show ?thesis by (intro early) simp_all
            next
              case verified: (Inr u5)
              define w5 where "w5 = log_Printf (unpacking_msg archiveFile) w4"
              have t5: "no_WriteFile w w5"
                using t4 by (auto simp: no_WriteFile_def w5_def log_Printf_def emit_def)
              have l5: "logged_since w w5 (unpacking_msg archiveFile)"
                unfolding w5_def using t4 by (rule logged_since_log)
              obtain r6 w6 where un: "unpackArchive targetDir archiveFile w5 = (r6, w6)"
                by (metis prod.collapse)
              then have u6: "no_WriteFile w5 w6" by (rule unpackArchive_no_WriteFile)
              with t5 have t6: "no_WriteFile w w6" by (rule no_WriteFile_trans)
              from l5 u6 have l6: "logged_since w w6 (unpacking_msg archiveFile)"
                by (rule logged_since_then)
              show ?thesis
              proof (cases r6)
                case bad: (Inl err)
                with run Inl mk made Some True ar fetched sl slurped verified un
                have "r = Inl (ExtractingArchive archiveFile err)" "w' = w6"
                  by (simp_all add: defs w2_def w5_def)
                with t6 l6 show ?thesis by (intro late) simp_all
              next
                case unpacked: (Inr u6)
                obtain r7 w7 where wr: "os_WriteFile marker [] w6 = (r7, w7)"
                  by (metis prod.collapse)
                have mc: "filepath_Clean marker = marker"
                  by (simp add: marker_def marker_path_clean)
                from os_WriteFile_empty [OF wr] mc
                consider (unopened) e7 where "w7 = w6" "r7 = Inl (PathError ''open'' marker e7)"
                  | (opened) "w7 = emit (EvWriteFile marker) (w6\<lparr>fs := (fs w6)(marker \<mapsto> File [])\<rparr>)"
                      "if marker \<in> set (close_fails w6)
                       then r7 = Inl (PathError ''close'' marker EIO) else r7 = Inr ()"
                  by auto
                then show ?thesis
                proof cases
                  case unopened
                  with run Inl mk made Some True ar fetched sl slurped verified un unpacked wr
                  have "r = Inl (PathError ''open'' marker e7)" "w' = w6"
                    by (simp_all add: defs w2_def w5_def)
                  with t6 l6 show ?thesis by (intro late) simp_all
                next
                  case opened
                  show ?thesis
                  proof (cases "marker \<in> set (close_fails w6)")
                    case closing: True
                    with opened(2) have r7: "r7 = Inl (PathError ''close'' marker EIO)" by simp
                    with run Inl mk made Some True ar fetched sl slurped verified un unpacked wr
                    have "r = Inl (PathError ''close'' marker EIO)" "w' = w7"
                      by (simp_all add: defs w2_def w5_def)
                    with Inl mk made Some True ar fetched sl slurped verified un unpacked wr
                      r7 opened(1) closing t6 l6
                    show ?thesis
                      unfolding w2_def w5_def by auto
                  next
                    case closed: False
                    with opened(2) have r7: "r7 = Inr ()" by simp
                    with run Inl mk made Some True ar fetched sl slurped verified un unpacked wr
                    have "r = Inr ()" "w' = log_Printf (success_msg version) w7"
                      by (simp_all add: defs w2_def w5_def)
                    with Inl mk made Some True ar fetched sl slurped verified un unpacked wr
                      r7 opened(1) closed t6 l6
                    show ?thesis
                      unfolding w2_def w5_def by auto
                  qed
                qed
              qed
            qed
          qed
        qed
      qed
    qed
  qed
qed


lemma io_Copy_denied: "io_Copy f data fails w = (r, w1) \<Longrightarrow> denied w1 = denied w"
  by (auto simp: io_Copy_def file_Write_def Let_def split: option.splits if_splits)

lemma os_Remove_denied: "denied (snd (os_Remove p w)) = denied w"
  by (simp add: os_Remove_def emit_def Let_def split: option.splits node.splits)

lemma copyFromURL_failed_denied:
  "copyFromURL_failed f dstFile err w = (r, w1) \<Longrightarrow> denied w1 = denied w"
  using os_Remove_denied [of dstFile w]
  by (auto simp: copyFromURL_failed_def file_Close_def split: if_splits)

lemma copyFromURL_denied:
  assumes "copyFromURL dstFile srcURL w = (r, w1)"
  shows "denied w1 = denied w"
proof (cases "os_Create dstFile w")
  case (Pair c w0)
  show ?thesis
  proof (cases c)
    case (Inl e)
    with Pair assms have "w1 = w"
      by (auto simp: copyFromURL_def dest: os_Create_Inl)
    then show ?thesis by simp
  next
    case (Inr f)
    with Pair have cr: "os_Create dstFile w = (Inr f, w0)" by simp
    define w2 where "w2 = emit (EvGet srcURL) w0"
    from os_Create_Inr [OF cr] have d2: "denied w2 = denied w"
      by (auto simp: w2_def emit_def)
    show ?thesis
    proof (cases "http_get w srcURL")
      case None
      with assms cr have "copyFromURL_failed f dstFile (TransportError srcURL) w2 = (r, w1)"
        by (simp add: copyFromURL_def w2_def)
      with d2 show ?thesis by (auto dest: copyFromURL_failed_denied)
    next
      case (Some res)
      show ?thesis
      proof (cases "get_status res = 200")
        case False
        with Some assms cr
        have "copyFromURL_failed f dstFile (StatusError (get_status res)) w2 = (r, w1)"
          by (simp add: copyFromURL_def w2_def)
        with d2 show ?thesis by (auto dest: copyFromURL_failed_denied)
      next
        case True
        obtain n cerr w3 where
          cp: "io_Copy f (get_body res) (get_body_fails res) w2 = ((n, cerr), w3)"
          by (metis prod.collapse)
        then have d3: "denied w3 = denied w" using d2 by (auto dest: io_Copy_denied)
        from Some True assms cr cp
        have "(\<exists>e. copyFromURL_failed f dstFile e w3 = (r, w1)) \<or> w1 = w3"
          by (auto simp: copyFromURL_def w2_def file_Close_def split: option.splits if_splits)
        with d3 show ?thesis by (auto dest: copyFromURL_failed_denied)
      qed
    qed
  qed
qed

lemma copyFromURL_Inr_Stat:
  assumes "copyFromURL dstFile srcURL w = (Inr u, w1)"
  shows "\<exists>res. http_get w srcURL = Some res \<and> get_status res = 200 \<and>
           os_Stat w1 dstFile = Inr (File (get_body res))"
proof (cases "os_Create dstFile w")
  case (Pair c w0)
  show ?thesis
  proof (cases c)
    case (Inl e)
    with Pair assms show ?thesis by (simp add: copyFromURL_def)
  next
    case (Inr f)
    with Pair have cr: "os_Create dstFile w = (Inr f, w0)" by simp
    from os_Create_Inr [OF cr]
    have c: "filepath_Clean dstFile \<notin> set (denied w)" "filepath_Clean dstFile \<noteq> ''/''"
      "filepath_Clean dstFile \<noteq> ''.''" by auto
    from copyFromURL_after_create [OF cr assms]
    obtain res where res: "http_get w srcURL = Some res" "get_status res = 200"
      "fs w1 = (fs w)(filepath_Clean dstFile \<mapsto> File (get_body res))"
      by auto
    from assms have "denied w1 = denied w" by (rule copyFromURL_denied)
    with c res(3) have "os_Stat w1 dstFile = Inr (File (get_body res))"
      by (simp add: os_Stat_def node_at_def Let_def)
    with res show ?thesis by blast
  qed
qed

lemma install_archive_cases:
  assumes "install_archive archiveFile goURL contentLength w = (r, w')"
  shows "((\<exists>fi. os_Stat w archiveFile = Inr fi \<and> node_size fi = contentLength) \<longleftrightarrow>
           r = Inr () \<and> w' = w) \<and>
         (\<forall>e. os_Stat w archiveFile = Inl e \<and> e \<noteq> ENOENT \<longrightarrow>
           r = Inl (PathError ''stat'' archiveFile e) \<and> w' = w) \<and>
         (os_Stat w archiveFile = Inl ENOENT \<or>
          (\<exists>fi. os_Stat w archiveFile = Inr fi \<and> node_size fi \<noteq> contentLength) \<longrightarrow>
           (\<exists>r0. copyFromURL archiveFile goURL w = (r0, w') \<and>
              (case r0 of
                 Inl err \<Rightarrow> r = Inl (ErrorDownloading goURL err)
               | Inr _ \<Rightarrow>
                  (\<exists>res. http_get w goURL = Some res \<and> get_status res = 200 \<and>
                     os_Stat w' archiveFile = Inr (File (get_body res)) \<and>
                     r = (if int (length (get_body res)) \<noteq> contentLength
                          then Inl (DownloadedSizeMismatch archiveFile
                                      (int (length (get_body res))) contentLength)
                          else Inr ())))))"
proof -
  obtain r0 w0 where cp: "copyFromURL archiveFile goURL w = (r0, w0)"
    by (metis prod.collapse)
  have grows: "trace w0 \<noteq> trace w" if "r0 = Inr u" for u
  proof (cases "os_Create archiveFile w")
    case (Pair c wc)
    show ?thesis
    proof (cases c)
      case (Inl e)
      with Pair cp that show ?thesis by (simp add: copyFromURL_def)
    next
      case (Inr f)
      with Pair have "os_Create archiveFile w = (Inr f, wc)" by simp
      from copyFromURL_after_create [OF this cp] that show ?thesis by auto
    qed
  qed
  show ?thesis
  proof (cases "os_Stat w archiveFile")
    case (Inl e)
    show ?thesis
    proof (cases "e = ENOENT")
      case False
      with Inl assms show ?thesis
        by (auto simp: install_archive_def os_IsNotExist_def)
    next
      case True
      show ?thesis
      proof (cases r0)
        case bad: (Inl err)
        with Inl True assms cp show ?thesis
          by (auto simp: install_archive_def os_IsNotExist_def)
      next
        case ok: (Inr u)
        from cp ok obtain res where res: "http_get w goURL = Some res" "get_status res = 200"
          "os_Stat w0 archiveFile = Inr (File (get_body res))"
          using copyFromURL_Inr_Stat [of archiveFile goURL w u w0] by auto
        with Inl True assms cp ok grows [OF ok] show ?thesis
          by (auto simp: install_archive_def os_IsNotExist_def node_size_def)
      qed
    qed
  next
    case (Inr fi)
    show ?thesis
    proof (cases "node_size fi = contentLength")
      case True
      with Inr assms show ?thesis by (auto simp: install_archive_def)
    next
      case False
      show ?thesis
      proof (cases r0)
        case bad: (Inl err)
        with Inr False assms cp show ?thesis
          by (auto simp: install_archive_def)
      next
        case ok: (Inr u)
        from cp ok obtain res where res: "http_get w goURL = Some res" "get_status res = 200"
          "os_Stat w0 archiveFile = Inr (File (get_body res))"
          using copyFromURL_Inr_Stat [of archiveFile goURL w u w0] by auto
        with Inr False assms cp ok grows [OF ok] show ?thesis
          by (auto simp: install_archive_def node_size_def)
      qed
    qed
  qed
qed

section \<open>Claims about install\<close>

lemma os_Stat_log_Printf: "os_Stat (log_Printf msg w) p = os_Stat w p"
  by (simp add: os_Stat_def node_at_def log_Printf_def emit_def Let_def)

lemma os_Stat_emit: "os_Stat (emit ev w) p = os_Stat w p"
  by (simp add: os_Stat_def node_at_def emit_def Let_def)

lemma os_WriteFile_then_Stat:
  assumes "os_WriteFile p [] w = (Inr u, w1)"
  shows "\<exists>n. os_Stat w1 p = Inr n"
proof -
  from os_WriteFile_empty_Inr [OF assms]
  have "filepath_Clean p \<notin> set (denied w)"
    and "w1 = emit (EvWriteFile (filepath_Clean p)) (w\<lparr>fs := (fs w)(filepath_Clean p \<mapsto> File [])\<rparr>)"
    by simp_all
  then show ?thesis
    by (simp add: os_Stat_def node_at_def emit_def Let_def)
qed

lemma install_already:
  "os_Stat w (marker_path targetDir) = Inr n \<Longrightarrow>
   install targetDir version w =
     (Inr (), w\<lparr>trace := trace w @ [EvLog (already_msg targetDir version)]\<rparr>)"
  by (simp add: install_def marker_path_def already_msg_def log_Printf_def emit_def)

lemma install_then_marker:
  assumes "install targetDir version w = (Inr (), w1)"
  shows "\<exists>n. os_Stat w1 (marker_path targetDir) = Inr n"
  using install_run2 [OF assms]
  by (auto simp: os_Stat_log_Printf dest: os_WriteFile_then_Stat split: if_splits)



lemmas install_defs = install_def install_archive_def versionArchiveURL_def getOS_def
  unpackedOkay_def copyFromURL_def copyFromURL_failed_def slurpURLToString_def
  verifySHA256_def unpackArchive_def unpackTarGz_def unpackZip_def validRelPath_def
  marker_path_def archive_path_def unpacking_msg_def success_msg_def already_msg_def

lemmas eval_defs = install_defs example_defs os_defs path_defs string_defs Let_def

lemma trim_digest: "strings_TrimSpace (abc_digest @ [CHR 0x0A]) = abc_digest"
  by (simp add: abc_digest_def strings_TrimSpace_def isSpace_def)

lemma release_install:
  "\<exists>w'. install ''/home/u/sdk/go1.21.0'' ''go1.21.0'' release_world = (Inr (), w') \<and>
     fs w' example_marker = Some (File []) \<and>
     fs w' ''/home/u/sdk/go1.21.0/bin/go'' = Some (File ''go'') \<and>
     trace w' =
       [EvMkdirAll ''/home/u/sdk/go1.21.0'', EvHead example_url,
        EvCreate example_archive, EvGet example_url, EvGet (example_url @ ''.sha256''),
        EvLog (unpacking_msg example_archive),
        EvMkdirAll ''/home/u/sdk/go1.21.0/bin'', EvOpenFile ''/home/u/sdk/go1.21.0/bin/go'',
        EvMkdirAll ''/home/u/sdk/go1.21.0'', EvOpenFile ''/home/u/sdk/go1.21.0/VERSION'',
        EvWriteFile example_marker, EvLog (success_msg ''go1.21.0'')]"
  by (simp add: release_world_def eval_defs sha256_abc trim_digest)


text \<open>
  Claim C3. \<open>install\<close> is idempotent. When \<open>os.Stat\<close> finds the marker file in the
  target directory, \<open>install\<close> returns success and the world is the same but for one more
  log line, \<open>already downloaded\<close>: no request is sent and the file system is as it was.
  And after any successful call the marker is there, so a second call right after it is
  such a call.
\<close>

theorem install_idempotent:
  "(os_Stat w (marker_path targetDir) = Inr n \<longrightarrow>
      install targetDir version w =
        (Inr (), w\<lparr>trace := trace w @ [EvLog (already_msg targetDir version)]\<rparr>)) \<and>
   (install targetDir version w = (Inr (), w1) \<longrightarrow>
      install targetDir version w1 =
        (Inr (), w1\<lparr>trace := trace w1 @ [EvLog (already_msg targetDir version)]\<rparr>))"
  by (auto dest: install_then_marker intro: install_already)


theorem install_idempotent_witness:
  "fst (install ''/home/u/sdk/go1.21.0'' ''go1.21.0'' release_world) = Inr () \<and>
   install ''/home/u/sdk/go1.21.0'' ''go1.21.0''
     (snd (install ''/home/u/sdk/go1.21.0'' ''go1.21.0'' release_world)) =
   (Inr (),
    (snd (install ''/home/u/sdk/go1.21.0'' ''go1.21.0'' release_world))
      \<lparr>trace := trace (snd (install ''/home/u/sdk/go1.21.0'' ''go1.21.0'' release_world)) @
         [EvLog ''go1.21.0: already downloaded in /home/u/sdk/go1.21.0'']\<rparr>)"
proof -
  from release_install obtain w' where
    first: "install ''/home/u/sdk/go1.21.0'' ''go1.21.0'' release_world = (Inr (), w')"
    by blast
  from install_idempotent [of release_world "''/home/u/sdk/go1.21.0''" _ "''go1.21.0''" w'] first
  show ?thesis by (simp add: already_msg_def)
qed




lemma install_archive_step:
  assumes "os_Stat w (marker_path targetDir) = Inl e0"
    and "os_MkdirAll targetDir w = (Inr (), w1)"
    and "http_head w (versionArchiveURL w version) = Some res" and "head_status res = 200"
    and "install_archive (archive_path w targetDir version) (versionArchiveURL w version)
           (head_content_length res) (emit (EvHead (versionArchiveURL w version)) w1) =
         (Inl err, w3)"
  shows "install targetDir version w = (Inl err, w3) \<and>
         fs w3 (marker_path targetDir) = fs w (marker_path targetDir) \<and> no_WriteFile w w3"
proof -
  let ?marker = "marker_path targetDir"
  let ?archive = "archive_path w targetDir version"
  let ?w2 = "emit (EvHead (versionArchiveURL w version)) w1"
  from assms have run: "install targetDir version w = (Inl err, w3)"
    by (simp add: install_def marker_path_def archive_path_def Let_def)
  from assms(2) have t1: "no_WriteFile w w1" by (rule os_MkdirAll_no_WriteFile)
  have f1: "fs w1 ?marker = fs w ?marker"
    unfolding marker_path_def using assms(2) plain_unpackedOkay
    by (rule os_MkdirAll_keeps_child)
  have t2: "no_WriteFile w ?w2"
    using t1 by (auto simp: no_WriteFile_def emit_def)
  have f2: "fs ?w2 ?marker = fs w ?marker"
    using f1 by (simp add: emit_def)
  from assms(5) have "no_WriteFile ?w2 w3" by (rule install_archive_no_WriteFile)
  with t2 have t3: "no_WriteFile w w3" by (rule no_WriteFile_trans)
  have "?marker \<noteq> filepath_Clean ?archive"
    by (simp add: archive_path_clean marker_not_archive)
  with assms(5) have "fs w3 ?marker = fs ?w2 ?marker" by (rule install_archive_fs_other)
  with f2 run t3 show ?thesis by simp
qed

lemma mismatch_install_archive:
  "fst (install_archive (archive_path mismatch_world ''/home/u/sdk/go1.21.0'' ''go1.21.0'')
          (versionArchiveURL mismatch_world ''go1.21.0'') 5
          (emit (EvHead (versionArchiveURL mismatch_world ''go1.21.0''))
             (snd (os_MkdirAll ''/home/u/sdk/go1.21.0'' mismatch_world)))) =
   Inl (DownloadedSizeMismatch example_archive 3 5)"
  by (simp add: mismatch_world_def release_world_def eval_defs)

text \<open>
  Claim C5, as amended. After the probe has answered 200, \<open>install\<close> keeps the archive
  file exactly when \<open>os.Stat\<close> finds it with the size that the probe announced: then, and
  only then, the step changes nothing. When \<open>os.Stat\<close> fails with an error other than
  ``does not exist'', \<open>install\<close> returns that error and downloads nothing. Otherwise (no
  file, or a file of another size) it downloads: a failed download is the result of
  \<open>install\<close>, wrapped as ``error downloading''; after a download that succeeded the file
  holds the whole body, and when its size is not the announced one \<open>install\<close> fails with
  the size-mismatch error. Whenever this step fails, its error is the result of
  \<open>install\<close>, \<open>os.WriteFile\<close> has not been called and the marker path holds what it held
  before.
\<close>

theorem install_reuse_or_download:
  assumes "os_Stat w (marker_path targetDir) = Inl e0"
    and "os_MkdirAll targetDir w = (Inr (), w1)"
    and "http_head w (versionArchiveURL w version) = Some res" and "head_status res = 200"
    and "install targetDir version w = (r, w')"
  shows
    "((\<exists>fi. os_Stat (emit (EvHead (versionArchiveURL w version)) w1)
             (archive_path w targetDir version) = Inr fi \<and>
           node_size fi = head_content_length res) \<longleftrightarrow>
      install_archive (archive_path w targetDir version) (versionArchiveURL w version)
        (head_content_length res) (emit (EvHead (versionArchiveURL w version)) w1) =
        (Inr (), emit (EvHead (versionArchiveURL w version)) w1)) \<and>
     (\<forall>e. os_Stat (emit (EvHead (versionArchiveURL w version)) w1)
            (archive_path w targetDir version) = Inl e \<and> e \<noteq> ENOENT \<longrightarrow>
          r = Inl (PathError ''stat'' (archive_path w targetDir version) e) \<and>
          w' = emit (EvHead (versionArchiveURL w version)) w1) \<and>
     (os_Stat (emit (EvHead (versionArchiveURL w version)) w1)
        (archive_path w targetDir version) = Inl ENOENT \<or>
      (\<exists>fi. os_Stat (emit (EvHead (versionArchiveURL w version)) w1)
             (archive_path w targetDir version) = Inr fi \<and>
           node_size fi \<noteq> head_content_length res) \<longrightarrow>
        (\<exists>r0 w3. copyFromURL (archive_path w targetDir version) (versionArchiveURL w version)
                    (emit (EvHead (versionArchiveURL w version)) w1) = (r0, w3) \<and>
           (case r0 of
              Inl err \<Rightarrow>
                r = Inl (ErrorDownloading (versionArchiveURL w version) err) \<and> w' = w3
            | Inr _ \<Rightarrow>
                (\<exists>got. http_get w (versionArchiveURL w version) = Some got \<and>
                   get_status got = 200 \<and>
                   os_Stat w3 (archive_path w targetDir version) = Inr (File (get_body got)) \<and>
                   (int (length (get_body got)) \<noteq> head_content_length res \<longrightarrow>
                      r = Inl (DownloadedSizeMismatch (archive_path w targetDir version)
                                 (int (length (get_body got))) (head_content_length res)) \<and>
                      w' = w3))))) \<and>
     (\<forall>err w3.
        install_archive (archive_path w targetDir version) (versionArchiveURL w version)
          (head_content_length res) (emit (EvHead (versionArchiveURL w version)) w1) =
          (Inl err, w3) \<longrightarrow>
        r = Inl err \<and> w' = w3 \<and>
        fs w' (marker_path targetDir) = fs w (marker_path targetDir) \<and> no_WriteFile w w')"
proof -
  let ?U = "versionArchiveURL w version"
  let ?A = "archive_path w targetDir version"
  let ?L = "head_content_length res"
  let ?W2 = "emit (EvHead ?U) w1"
  obtain ra wa where ia: "install_archive ?A ?U ?L ?W2 = (ra, wa)"
    by (metis prod.collapse)
  note cases = install_archive_cases [OF ia]
  have step: "r = Inl err \<and> w' = w3 \<and> fs w' (marker_path targetDir) = fs w (marker_path targetDir) \<and>
              no_WriteFile w w'"
    if "install_archive ?A ?U ?L ?W2 = (Inl err, w3)" for err w3
    using install_archive_step [OF assms(1) assms(2) assms(3) assms(4) that] assms(5)
    by simp
  have get: "http_get ?W2 = http_get w"
    using os_MkdirAll_Inr [OF assms(2)] by (simp add: emit_def)
  have c1: "(\<exists>fi. os_Stat ?W2 ?A = Inr fi \<and> node_size fi = ?L) \<longleftrightarrow>
            install_archive ?A ?U ?L ?W2 = (Inr (), ?W2)"
    using cases [THEN conjunct1] ia by simp
  have c2: "\<forall>e. os_Stat ?W2 ?A = Inl e \<and> e \<noteq> ENOENT \<longrightarrow>
              r = Inl (PathError ''stat'' ?A e) \<and> w' = ?W2"
  proof (intro allI impI)
    fix e assume "os_Stat ?W2 ?A = Inl e \<and> e \<noteq> ENOENT"
    with cases [THEN conjunct2, THEN conjunct1]
    have "ra = Inl (PathError ''stat'' ?A e)" "wa = ?W2" by blast+
    with ia have "install_archive ?A ?U ?L ?W2 = (Inl (PathError ''stat'' ?A e), ?W2)"
      by simp
    from step [OF this] show "r = Inl (PathError ''stat'' ?A e) \<and> w' = ?W2" by simp
  qed
  have c3: "os_Stat ?W2 ?A = Inl ENOENT \<or>
      (\<exists>fi. os_Stat ?W2 ?A = Inr fi \<and> node_size fi \<noteq> ?L) \<longrightarrow>
        (\<exists>r0 w3. copyFromURL ?A ?U ?W2 = (r0, w3) \<and>
           (case r0 of
              Inl err \<Rightarrow> r = Inl (ErrorDownloading ?U err) \<and> w' = w3
            | Inr _ \<Rightarrow>
                (\<exists>got. http_get w ?U = Some got \<and> get_status got = 200 \<and>
                   os_Stat w3 ?A = Inr (File (get_body got)) \<and>
                   (int (length (get_body got)) \<noteq> ?L \<longrightarrow>
                      r = Inl (DownloadedSizeMismatch ?A (int (length (get_body got))) ?L) \<and>
                      w' = w3))))"
  proof
    assume "os_Stat ?W2 ?A = Inl ENOENT \<or>
      (\<exists>fi. os_Stat ?W2 ?A = Inr fi \<and> node_size fi \<noteq> ?L)"
    with cases [THEN conjunct2, THEN conjunct2]
    obtain r0 where cp: "copyFromURL ?A ?U ?W2 = (r0, wa)"
      and then_: "case r0 of
                 Inl err \<Rightarrow> ra = Inl (ErrorDownloading ?U err)
               | Inr _ \<Rightarrow>
                  (\<exists>got. http_get ?W2 ?U = Some got \<and> get_status got = 200 \<and>
                     os_Stat wa ?A = Inr (File (get_body got)) \<and>
                     ra = (if int (length (get_body got)) \<noteq> ?L
                          then Inl (DownloadedSizeMismatch ?A
                                      (int (length (get_body got))) ?L)
                          else Inr ()))"
      by blast
    have "case r0 of
              Inl err \<Rightarrow> r = Inl (ErrorDownloading ?U err) \<and> w' = wa
            | Inr _ \<Rightarrow>
                (\<exists>got. http_get w ?U = Some got \<and> get_status got = 200 \<and>
                   os_Stat wa ?A = Inr (File (get_body got)) \<and>
                   (int (length (get_body got)) \<noteq> ?L \<longrightarrow>
                      r = Inl (DownloadedSizeMismatch ?A (int (length (get_body got))) ?L) \<and>
                      w' = wa))"
    proof (cases r0)
      case (Inl err)
      with then_ ia have "install_archive ?A ?U ?L ?W2 = (Inl (ErrorDownloading ?U err), wa)"
        by simp
      from step [OF this] Inl show ?thesis by simp
    next
      case (Inr u)
      with then_ obtain got where got: "http_get ?W2 ?U = Some got" "get_status got = 200"
        "os_Stat wa ?A = Inr (File (get_body got))"
        "ra = (if int (length (get_body got)) \<noteq> ?L
               then Inl (DownloadedSizeMismatch ?A (int (length (get_body got))) ?L)
               else Inr ())"
        by auto
      have "r = Inl (DownloadedSizeMismatch ?A (int (length (get_body got))) ?L) \<and> w' = wa"
        if "int (length (get_body got)) \<noteq> ?L"
      proof -
        from that got(4) ia
        have "install_archive ?A ?U ?L ?W2 =
                (Inl (DownloadedSizeMismatch ?A (int (length (get_body got))) ?L), wa)"
          by simp
        from step [OF this] show ?thesis by simp
      qed
      with got(1-3) Inr show ?thesis by (auto simp: get)
    qed
    with cp show "\<exists>r0 w3. copyFromURL ?A ?U ?W2 = (r0, w3) \<and>
           (case r0 of
              Inl err \<Rightarrow> r = Inl (ErrorDownloading ?U err) \<and> w' = w3
            | Inr _ \<Rightarrow>
                (\<exists>got. http_get w ?U = Some got \<and> get_status got = 200 \<and>
                   os_Stat w3 ?A = Inr (File (get_body got)) \<and>
                   (int (length (get_body got)) \<noteq> ?L \<longrightarrow>
                      r = Inl (DownloadedSizeMismatch ?A (int (length (get_body got))) ?L) \<and>
                      w' = w3)))"
      by blast
  qed
  have c4: "\<forall>err w3. install_archive ?A ?U ?L ?W2 = (Inl err, w3) \<longrightarrow>
        r = Inl err \<and> w' = w3 \<and>
        fs w' (marker_path targetDir) = fs w (marker_path targetDir) \<and> no_WriteFile w w'"
    using step by blast
  from c1 c2 c3 c4 show ?thesis by (intro conjI)
qed

theorem install_reuse_or_download_witness:
  "os_Stat mismatch_world (marker_path ''/home/u/sdk/go1.21.0'') = Inl ENOENT \<and>
   fst (os_MkdirAll ''/home/u/sdk/go1.21.0'' mismatch_world) = Inr () \<and>
   http_head mismatch_world (versionArchiveURL mismatch_world ''go1.21.0'') =
     Some \<lparr>head_status = 200, head_content_length = 5\<rparr> \<and>
   fst (install ''/home/u/sdk/go1.21.0'' ''go1.21.0'' mismatch_world) =
     Inl (DownloadedSizeMismatch example_archive 3 5) \<and>
   fs (snd (install ''/home/u/sdk/go1.21.0'' ''go1.21.0'' mismatch_world))
     (marker_path ''/home/u/sdk/go1.21.0'') = None"
proof -
  let ?T = "''/home/u/sdk/go1.21.0''"
  let ?res = "\<lparr>head_status = 200, head_content_length = 5\<rparr>"
  have marker: "os_Stat mismatch_world (marker_path ?T) = Inl ENOENT"
    by (simp add: mismatch_world_def release_world_def eval_defs)
  have absent: "fs mismatch_world (marker_path ?T) = None"
    by (simp add: mismatch_world_def release_world_def eval_defs)
  have made: "fst (os_MkdirAll ?T mismatch_world) = Inr ()"
    by (simp add: mismatch_world_def release_world_def eval_defs)
  then have mk: "os_MkdirAll ?T mismatch_world = (Inr (), snd (os_MkdirAll ?T mismatch_world))"
    by (simp add: prod_eq_iff)
  have head: "http_head mismatch_world (versionArchiveURL mismatch_world ''go1.21.0'') =
     Some ?res"
    by (simp add: mismatch_world_def release_world_def eval_defs)
  have status: "head_status ?res = 200" by simp
  have step: "install_archive (archive_path mismatch_world ?T ''go1.21.0'')
          (versionArchiveURL mismatch_world ''go1.21.0'') (head_content_length ?res)
          (emit (EvHead (versionArchiveURL mismatch_world ''go1.21.0''))
             (snd (os_MkdirAll ?T mismatch_world))) =
        (Inl (DownloadedSizeMismatch example_archive 3 5),
         snd (install_archive (archive_path mismatch_world ?T ''go1.21.0'')
          (versionArchiveURL mismatch_world ''go1.21.0'') (head_content_length ?res)
          (emit (EvHead (versionArchiveURL mismatch_world ''go1.21.0''))
             (snd (os_MkdirAll ?T mismatch_world)))))"
    using mismatch_install_archive by (simp add: prod_eq_iff)
  from install_reuse_or_download [OF marker mk head status prod.collapse [symmetric]] step
  have "fst (install ?T ''go1.21.0'' mismatch_world) =
          Inl (DownloadedSizeMismatch example_archive 3 5) \<and>
        fs (snd (install ?T ''go1.21.0'' mismatch_world)) (marker_path ?T) =
          fs mismatch_world (marker_path ?T)"
    by blast
  with marker made head absent show ?thesis by simp
qed

text \<open>
  The claim as stated fails: there is no archive file, \<open>os.Stat\<close> on its path fails with
  ``permission denied'', and \<open>install\<close> returns that error after the probe, without
  sending the request for the archive.
\<close>

theorem install_stat_error_counterexample:
  "fs denied_world example_archive = None \<and>
   fst (install ''/home/u/sdk/go1.21.0'' ''go1.21.0'' denied_world) =
     Inl (PathError ''stat'' example_archive EACCES) \<and>
   trace (snd (install ''/home/u/sdk/go1.21.0'' ''go1.21.0'' denied_world)) =
     [EvMkdirAll ''/home/u/sdk/go1.21.0'', EvHead example_url]"
  by (simp add: denied_world_def release_world_def eval_defs)

end
